theory Spec2Isabelle
  imports Complex_Main "HOL-Library.Word" "HOL-Library.Signed_Division"
begin

unbundle bit_operations_syntax

section \<open>Geometry batch: UIBatch.h and UIBatch.cpp\<close>

text \<open>
  Conventions of the embedding.
  \<^item> A C++ \<open>float\<close> is idealised as a \<open>real\<close>; \<open>unsigned\<close> colours are \<open>32 word\<close>;
    \<open>int\<close> coordinates are \<open>int\<close> (no claim below depends on their overflow);
    buffer offsets (\<open>unsigned\<close>) are \<open>nat\<close>.
  \<^item> A pointer is an optional address, \<open>None\<close> being \<open>nullptr\<close>. The vertex buffers
    (\<open>PODVector<float>\<close>) live in an explicit store from addresses to slot lists, so that
    two batches writing through the same pointer share one buffer.
  \<^item> Dereferencing \<open>nullptr\<close> is a fault value; every operation that dereferences
    returns \<open>fault + result\<close>.
  \<^item> A member \<open>name_\<close> of the source is the record field \<open>name'\<close> (an Isabelle
    name cannot end with an underscore).
\<close>

datatype BlendMode =
  BLEND_REPLACE | BLEND_ADD | BLEND_MULTIPLY | BLEND_ALPHA | BLEND_ADDALPHA
  | BLEND_PREMULALPHA | BLEND_INVDESTALPHA | BLEND_SUBTRACT | BLEND_SUBTRACTALPHA

record IntRect =
  rleft :: int
  rtop :: int
  rright :: int
  rbottom :: int

type_synonym IntVector2 = "int \<times> int"
type_synonym Vector2 = "real \<times> real"
type_synonym Vector3 = "real \<times> real \<times> real"

record Color =
  colR :: real
  colG :: real
  colB :: real
  colA :: real

datatype Corner = C_TOPLEFT | C_TOPRIGHT | C_BOTTOMLEFT | C_BOTTOMRIGHT

datatype fault = NullPointer

text \<open>One slot of the interleaved vertex buffer: a float, or a packed colour written
  through the \<open>(unsigned&)\<close> cast.\<close>

datatype vslot = VFloat real | VColor "32 word"

type_synonym vstore = "nat \<Rightarrow> vslot list"

text \<open>
  Modelled from the spec: \<open>Color\<close> (Math/Color.h) is not under src/. \<open>ToUInt\<close> packs
  the four channels, each scaled to 0..255 by truncation and clamped, as RGBA with alpha in
  the top byte (the byte \<open>AddQuad\<close> tests with \<open>0xff000000\<close>); \<open>Lerp\<close> is the linear
  interpolation of section 4.1.
\<close>

definition Clamp :: "'a::linorder \<Rightarrow> 'a \<Rightarrow> 'a \<Rightarrow> 'a" where
  "Clamp v lo hi = (if v < lo then lo else if v > hi then hi else v)"

definition trunc_int :: "real \<Rightarrow> int" where
  "trunc_int v = (if 0 \<le> v then \<lfloor>v\<rfloor> else \<lceil>v\<rceil>)"

definition channel :: "real \<Rightarrow> 32 word" where
  "channel v = word_of_int (Clamp (trunc_int (v * 255)) 0 255)"

definition ToUInt :: "Color \<Rightarrow> 32 word" where
  "ToUInt c = (push_bit 24 (channel (colA c)) OR push_bit 16 (channel (colB c))
               OR push_bit 8 (channel (colG c)) OR channel (colR c))"

definition Lerp :: "Color \<Rightarrow> Color \<Rightarrow> real \<Rightarrow> Color" where
  "Lerp c rhs t =
     (let invT = 1 - t in
      \<lparr> colR = colR c * invT + colR rhs * t, colG = colG c * invT + colG rhs * t,
        colB = colB c * invT + colB rhs * t, colA = colA c * invT + colA rhs * t \<rparr>)"

text \<open>
  Modelled from the spec: \<open>Matrix3x4\<close> (Math/Matrix3x4.h) is not under src/; the
  3x4 affine transform of section 4.1, as its twelve entries in row order, applied to a point.
\<close>

type_synonym Matrix3x4 = "(real \<times> real \<times> real \<times> real) \<times> (real \<times> real \<times> real \<times> real)
                          \<times> (real \<times> real \<times> real \<times> real)"

definition mat_mul :: "Matrix3x4 \<Rightarrow> Vector3 \<Rightarrow> Vector3" where
  "mat_mul m v =
     (case (m, v) of
        (((m00, m01, m02, m03), (m10, m11, m12, m13), (m20, m21, m22, m23)), (x, y, z)) \<Rightarrow>
          (m00 * x + m01 * y + m02 * z + m03,
           m10 * x + m11 * y + m12 * z + m13,
           m20 * x + m21 * y + m22 * z + m23))"

definition vsub :: "Vector3 \<Rightarrow> Vector3 \<Rightarrow> Vector3" where
  "vsub a b = (case (a, b) of ((ax, ay, az), (bx, by, bz)) \<Rightarrow> (ax - bx, ay - by, az - bz))"

text \<open>
  The attributes of the \<open>UIElement\<close> a batch points to, as the batch reads them
  (UIElement.h is not under src/; the getters are taken as given values):
  \<open>GetDerivedColor().ToUInt()\<close>, \<open>HasColorGradient()\<close>, \<open>GetScreenPosition()\<close>,
  \<open>GetSize()\<close>, \<open>GetColor(corner)\<close> and \<open>GetDerivedOpacity()\<close>.
\<close>

record BatchElement =
  derivedColorUInt :: "32 word"
  hasColorGradient :: bool
  screenPosition :: IntVector2
  elemSize :: IntVector2
  cornerColor :: "Corner \<Rightarrow> Color"
  derivedOpacity :: real

record UIBatch =
  element' :: "BatchElement option"
  blendMode' :: BlendMode
  scissor' :: IntRect
  texture' :: "nat option"
  invTextureSize' :: Vector2
  vertexData' :: "nat option"
  vertexStart' :: nat
  vertexEnd' :: nat
  color' :: "32 word"
  useGradient' :: bool
  customMaterial' :: "nat option"

definition UI_VERTEX_SIZE :: nat where
  "UI_VERTEX_SIZE = 6"

definition SetDefaultColor :: "UIBatch \<Rightarrow> UIBatch" where
  "SetDefaultColor b =
     (case element' b of
        Some e \<Rightarrow> b\<lparr>color' := derivedColorUInt e, useGradient' := hasColorGradient e\<rparr>
      | None \<Rightarrow> b\<lparr>color' := 0xffffffff, useGradient' := False\<rparr>)"

definition SetColor :: "UIBatch \<Rightarrow> Color \<Rightarrow> bool \<Rightarrow> UIBatch" where
  "SetColor b c overrideAlpha =
     (case element' b of
        None \<Rightarrow> b\<lparr>useGradient' := False, color' := ToUInt c\<rparr>
      | Some e \<Rightarrow>
          b\<lparr>useGradient' := False,
            color' := (if overrideAlpha then ToUInt c
                       else ToUInt (c\<lparr>colA := colA c * derivedOpacity e\<rparr>))\<rparr>)"

text \<open>The default constructor: every member at its in-class initialiser, then
  \<open>SetDefaultColor\<close>.\<close>

definition UIBatch_default :: UIBatch where
  "UIBatch_default =
     SetDefaultColor
       \<lparr> element' = None, blendMode' = BLEND_REPLACE,
         scissor' = \<lparr>rleft = 0, rtop = 0, rright = 0, rbottom = 0\<rparr>,
         texture' = None, invTextureSize' = (1, 1), vertexData' = None,
         vertexStart' = 0, vertexEnd' = 0, color' = 0, useGradient' = False,
         customMaterial' = None \<rparr>"

text \<open>The five-argument constructor. \<open>texSize\<close> gives the width and height of the
  texture at an address; \<open>vertexData\<close> is dereferenced for its size.\<close>

definition UIBatch_new ::
  "(nat \<Rightarrow> IntVector2) \<Rightarrow> vstore \<Rightarrow> BatchElement option \<Rightarrow> BlendMode \<Rightarrow> IntRect \<Rightarrow> nat option
     \<Rightarrow> nat option \<Rightarrow> fault + UIBatch" where
  "UIBatch_new texSize vs element blendMode scissor texture vertexData =
     (case vertexData of
        None \<Rightarrow> Inl NullPointer
      | Some p \<Rightarrow>
          Inr (SetDefaultColor
            \<lparr> element' = element, blendMode' = blendMode, scissor' = scissor,
              texture' = texture,
              invTextureSize' =
                (case texture of
                   Some t \<Rightarrow> (1 / real_of_int (fst (texSize t)), 1 / real_of_int (snd (texSize t)))
                 | None \<Rightarrow> (1, 1)),
              vertexData' = vertexData,
              vertexStart' = length (vs p), vertexEnd' = length (vs p),
              color' = 0, useGradient' = False, customMaterial' = None \<rparr>))"

subsection \<open>Batch merger\<close>

text \<open>\<open>UIBatch::Merge\<close>: the receiver after the call and the returned flag.\<close>

definition Merge :: "UIBatch \<Rightarrow> UIBatch \<Rightarrow> bool \<times> UIBatch" where
  "Merge self batch =
     (if blendMode' batch \<noteq> blendMode' self \<or>
         scissor' batch \<noteq> scissor' self \<or>
         texture' batch \<noteq> texture' self \<or>
         vertexData' batch \<noteq> vertexData' self \<or>
         vertexStart' batch \<noteq> vertexEnd' self
      then (False, self)
      else (True, self\<lparr>vertexEnd' := vertexEnd' batch\<rparr>))"

text \<open>\<open>UIBatch::AddOrMerge\<close>: the batch list after the call. \<open>Back()\<close> is the last
  entry, which a successful \<open>Merge\<close> updates in place.\<close>

definition AddOrMerge :: "UIBatch \<Rightarrow> UIBatch list \<Rightarrow> UIBatch list" where
  "AddOrMerge batch batches =
     (if vertexEnd' batch = vertexStart' batch then batches
      else if batches \<noteq> [] \<and> fst (Merge (last batches) batch)
           then butlast batches @ [snd (Merge (last batches) batch)]
      else batches @ [batch])"

subsection \<open>Adding quads\<close>

text \<open>The bilinear interpolation of \<open>GetInterpolatedColor\<close> on a live element, and the
  member function, which dereferences \<open>element_\<close>.\<close>

definition interpolated :: "BatchElement \<Rightarrow> real \<Rightarrow> real \<Rightarrow> 32 word" where
  "interpolated e x y =
     (let size = elemSize e in
      if fst size \<noteq> 0 \<and> snd size \<noteq> 0 then
        (let cLerpX = Clamp (x / real_of_int (fst size)) 0 1;
             cLerpY = Clamp (y / real_of_int (snd size)) 0 1;
             topColor = Lerp (cornerColor e C_TOPLEFT) (cornerColor e C_TOPRIGHT) cLerpX;
             bottomColor = Lerp (cornerColor e C_BOTTOMLEFT) (cornerColor e C_BOTTOMRIGHT) cLerpX;
             c = Lerp topColor bottomColor cLerpY
         in ToUInt (c\<lparr>colA := colA c * derivedOpacity e\<rparr>))
      else
        (let c = cornerColor e C_TOPLEFT
         in ToUInt (c\<lparr>colA := colA c * derivedOpacity e\<rparr>)))"

definition GetInterpolatedColor :: "UIBatch \<Rightarrow> real \<Rightarrow> real \<Rightarrow> fault + 32 word" where
  "GetInterpolatedColor b x y =
     (case element' b of
        None \<Rightarrow> Inl NullPointer
      | Some e \<Rightarrow> Inr (interpolated e x y))"

text \<open>One vertex: position, z = 0, packed colour, UV.\<close>

definition vertex :: "real \<Rightarrow> real \<Rightarrow> 32 word \<Rightarrow> real \<Rightarrow> real \<Rightarrow> vslot list" where
  "vertex px py c u v = [VFloat px, VFloat py, VFloat 0, VColor c, VFloat u, VFloat v]"

text \<open>The tail shared by every \<open>AddQuad\<close>: \<open>begin = Size()\<close>,
  \<open>Resize(begin + 6 * UI_VERTEX_SIZE)\<close>, \<open>vertexEnd_ = Size()\<close>, then the 36 slots
  written at \<open>begin\<close>.\<close>

definition append_quad :: "nat \<Rightarrow> UIBatch \<times> vstore \<Rightarrow> vslot list \<Rightarrow> UIBatch \<times> vstore" where
  "append_quad p st dest =
     (case st of (b, vs) \<Rightarrow>
        (b\<lparr>vertexEnd' := length (vs p) + 6 * UI_VERTEX_SIZE\<rparr>, vs(p := vs p @ dest)))"

text \<open>The four corner colours of the two rectangle variants (the \<open>else\<close> branch of their
  \<open>if (!useGradient_)\<close>, and the flat colour otherwise).\<close>

definition corner_colors ::
  "UIBatch \<Rightarrow> BatchElement \<Rightarrow> real \<Rightarrow> real \<Rightarrow> real \<Rightarrow> real
     \<Rightarrow> 32 word \<times> 32 word \<times> 32 word \<times> 32 word" where
  "corner_colors b e x y width height =
     (if \<not> useGradient' b then (color' b, color' b, color' b, color' b)
      else (interpolated e x y, interpolated e (x + width) y,
            interpolated e x (y + height), interpolated e (x + width) (y + height)))"

text \<open>The 36 slots the first \<open>AddQuad\<close> writes: two triangles, (top-left, top-right,
  bottom-left) and (top-right, bottom-right, bottom-left).\<close>

definition rect_slots ::
  "Vector3 \<Rightarrow> UIBatch \<Rightarrow> BatchElement \<Rightarrow> real \<Rightarrow> real \<Rightarrow> real \<Rightarrow> real \<Rightarrow> int \<Rightarrow> int \<Rightarrow> int \<Rightarrow> int
     \<Rightarrow> vslot list" where
  "rect_slots posAdjust b e x y width height texOffsetX texOffsetY texWidth texHeight =
     (case corner_colors b e x y width height of
        (topLeftColor, topRightColor, bottomLeftColor, bottomRightColor) \<Rightarrow>
     (let screenPos = screenPosition e;
          left = x + real_of_int (fst screenPos) - fst posAdjust;
          right = left + width;
          top = y + real_of_int (snd screenPos) - fst (snd posAdjust);
          bottom = top + height;
          leftUV = real_of_int texOffsetX * fst (invTextureSize' b);
          topUV = real_of_int texOffsetY * snd (invTextureSize' b);
          rightUV = (real_of_int texOffsetX + (if texWidth \<noteq> 0 then real_of_int texWidth else width))
                      * fst (invTextureSize' b);
          bottomUV = (real_of_int texOffsetY + (if texHeight \<noteq> 0 then real_of_int texHeight else height))
                      * snd (invTextureSize' b)
      in vertex left top topLeftColor leftUV topUV
         @ vertex right top topRightColor rightUV topUV
         @ vertex left bottom bottomLeftColor leftUV bottomUV
         @ vertex right top topRightColor rightUV topUV
         @ vertex right bottom bottomRightColor rightUV bottomUV
         @ vertex left bottom bottomLeftColor leftUV bottomUV))"

text \<open>\<open>AddQuad(float x, float y, float width, float height, int texOffsetX, int texOffsetY,
  int texWidth, int texHeight)\<close>. Without a gradient and with a zero alpha byte it returns
  before anything is dereferenced.\<close>

definition AddQuad ::
  "Vector3 \<Rightarrow> UIBatch \<times> vstore \<Rightarrow> real \<Rightarrow> real \<Rightarrow> real \<Rightarrow> real \<Rightarrow> int \<Rightarrow> int \<Rightarrow> int \<Rightarrow> int
     \<Rightarrow> fault + UIBatch \<times> vstore" where
  "AddQuad posAdjust st x y width height texOffsetX texOffsetY texWidth texHeight =
     (let b = fst st in
      if \<not> useGradient' b \<and> color' b AND 0xff000000 = 0 then Inr st
      else
        (case element' b of
           None \<Rightarrow> Inl NullPointer
         | Some e \<Rightarrow>
             (case vertexData' b of
                None \<Rightarrow> Inl NullPointer
              | Some p \<Rightarrow>
                  Inr (append_quad p st
                    (rect_slots posAdjust b e x y width height
                       texOffsetX texOffsetY texWidth texHeight)))))"

text \<open>The 36 slots of the transform variant: the four corners go through the matrix, then
  \<open>posAdjust\<close> is subtracted.\<close>

definition transform_slots ::
  "Vector3 \<Rightarrow> UIBatch \<Rightarrow> 32 word \<times> 32 word \<times> 32 word \<times> 32 word \<Rightarrow> Matrix3x4
     \<Rightarrow> int \<Rightarrow> int \<Rightarrow> int \<Rightarrow> int \<Rightarrow> int \<Rightarrow> int \<Rightarrow> int \<Rightarrow> int \<Rightarrow> vslot list" where
  "transform_slots posAdjust b colors transform x y width height
       texOffsetX texOffsetY texWidth texHeight =
     (case colors of (topLeftColor, topRightColor, bottomLeftColor, bottomRightColor) \<Rightarrow>
     (let v1 = vsub (mat_mul transform (real_of_int x, real_of_int y, 0)) posAdjust;
          v2 = vsub (mat_mul transform (real_of_int x + real_of_int width, real_of_int y, 0)) posAdjust;
          v3 = vsub (mat_mul transform (real_of_int x, real_of_int y + real_of_int height, 0)) posAdjust;
          v4 = vsub (mat_mul transform
                 (real_of_int x + real_of_int width, real_of_int y + real_of_int height, 0)) posAdjust;
          leftUV = real_of_int texOffsetX * fst (invTextureSize' b);
          topUV = real_of_int texOffsetY * snd (invTextureSize' b);
          rightUV = real_of_int (texOffsetX + (if texWidth \<noteq> 0 then texWidth else width))
                      * fst (invTextureSize' b);
          bottomUV = real_of_int (texOffsetY + (if texHeight \<noteq> 0 then texHeight else height))
                      * snd (invTextureSize' b)
      in vertex (fst v1) (fst (snd v1)) topLeftColor leftUV topUV
         @ vertex (fst v2) (fst (snd v2)) topRightColor rightUV topUV
         @ vertex (fst v3) (fst (snd v3)) bottomLeftColor leftUV bottomUV
         @ vertex (fst v2) (fst (snd v2)) topRightColor rightUV topUV
         @ vertex (fst v4) (fst (snd v4)) bottomRightColor rightUV bottomUV
         @ vertex (fst v3) (fst (snd v3)) bottomLeftColor leftUV bottomUV))"

text \<open>\<open>AddQuad(const Matrix3x4& transform, int x, int y, int width, int height, ...)\<close>.
  The element is dereferenced only for the gradient.\<close>

definition AddQuad_transform ::
  "Vector3 \<Rightarrow> UIBatch \<times> vstore \<Rightarrow> Matrix3x4 \<Rightarrow> int \<Rightarrow> int \<Rightarrow> int \<Rightarrow> int \<Rightarrow> int \<Rightarrow> int \<Rightarrow> int \<Rightarrow> int
     \<Rightarrow> fault + UIBatch \<times> vstore" where
  "AddQuad_transform posAdjust st transform x y width height texOffsetX texOffsetY texWidth texHeight =
     (let b = fst st in
      if \<not> useGradient' b \<and> color' b AND 0xff000000 = 0 then Inr st
      else
        (case (if \<not> useGradient' b then Some (color' b, color' b, color' b, color' b)
               else map_option
                      (\<lambda>e. corner_colors b e (real_of_int x) (real_of_int y)
                              (real_of_int width) (real_of_int height))
                      (element' b)) of
           None \<Rightarrow> Inl NullPointer
         | Some colors \<Rightarrow>
             (case vertexData' b of
                None \<Rightarrow> Inl NullPointer
              | Some p \<Rightarrow>
                  Inr (append_quad p st
                    (transform_slots posAdjust b colors transform x y width height
                       texOffsetX texOffsetY texWidth texHeight)))))"

text \<open>The two free-point variants: four transformed corners \<open>a, b, c, d\<close> with their
  texture points, as the triangles (a, b, c) and (a, c, d). Neither reads
  \<open>useGradient_\<close> nor tests the alpha byte; the first writes \<open>color_\<close> at every vertex,
  the second the four colours it is given.\<close>

definition free_slots ::
  "Vector3 \<Rightarrow> UIBatch \<Rightarrow> 32 word \<times> 32 word \<times> 32 word \<times> 32 word \<Rightarrow> Matrix3x4
     \<Rightarrow> IntVector2 \<Rightarrow> IntVector2 \<Rightarrow> IntVector2 \<Rightarrow> IntVector2
     \<Rightarrow> IntVector2 \<Rightarrow> IntVector2 \<Rightarrow> IntVector2 \<Rightarrow> IntVector2 \<Rightarrow> vslot list" where
  "free_slots posAdjust b colors transform pa pb pc pd texA texB texC texD =
     (case colors of (c1, c2, c3, c4) \<Rightarrow>
     (let v1 = vsub (mat_mul transform (real_of_int (fst pa), real_of_int (snd pa), 0)) posAdjust;
          v2 = vsub (mat_mul transform (real_of_int (fst pb), real_of_int (snd pb), 0)) posAdjust;
          v3 = vsub (mat_mul transform (real_of_int (fst pc), real_of_int (snd pc), 0)) posAdjust;
          v4 = vsub (mat_mul transform (real_of_int (fst pd), real_of_int (snd pd), 0)) posAdjust;
          uv1 = (real_of_int (fst texA) * fst (invTextureSize' b),
                 real_of_int (snd texA) * snd (invTextureSize' b));
          uv2 = (real_of_int (fst texB) * fst (invTextureSize' b),
                 real_of_int (snd texB) * snd (invTextureSize' b));
          uv3 = (real_of_int (fst texC) * fst (invTextureSize' b),
                 real_of_int (snd texC) * snd (invTextureSize' b));
          uv4 = (real_of_int (fst texD) * fst (invTextureSize' b),
                 real_of_int (snd texD) * snd (invTextureSize' b))
      in vertex (fst v1) (fst (snd v1)) c1 (fst uv1) (snd uv1)
         @ vertex (fst v2) (fst (snd v2)) c2 (fst uv2) (snd uv2)
         @ vertex (fst v3) (fst (snd v3)) c3 (fst uv3) (snd uv3)
         @ vertex (fst v1) (fst (snd v1)) c1 (fst uv1) (snd uv1)
         @ vertex (fst v3) (fst (snd v3)) c3 (fst uv3) (snd uv3)
         @ vertex (fst v4) (fst (snd v4)) c4 (fst uv4) (snd uv4)))"

definition AddQuad_free ::
  "Vector3 \<Rightarrow> UIBatch \<times> vstore \<Rightarrow> Matrix3x4 \<Rightarrow> IntVector2 \<Rightarrow> IntVector2 \<Rightarrow> IntVector2 \<Rightarrow> IntVector2
     \<Rightarrow> IntVector2 \<Rightarrow> IntVector2 \<Rightarrow> IntVector2 \<Rightarrow> IntVector2 \<Rightarrow> fault + UIBatch \<times> vstore" where
  "AddQuad_free posAdjust st transform pa pb pc pd texA texB texC texD =
     (let b = fst st in
      case vertexData' b of
        None \<Rightarrow> Inl NullPointer
      | Some p \<Rightarrow>
          Inr (append_quad p st
            (free_slots posAdjust b (color' b, color' b, color' b, color' b) transform
               pa pb pc pd texA texB texC texD)))"

definition AddQuad_free_colors ::
  "Vector3 \<Rightarrow> UIBatch \<times> vstore \<Rightarrow> Matrix3x4 \<Rightarrow> IntVector2 \<Rightarrow> IntVector2 \<Rightarrow> IntVector2 \<Rightarrow> IntVector2
     \<Rightarrow> IntVector2 \<Rightarrow> IntVector2 \<Rightarrow> IntVector2 \<Rightarrow> IntVector2 \<Rightarrow> Color \<Rightarrow> Color \<Rightarrow> Color \<Rightarrow> Color
     \<Rightarrow> fault + UIBatch \<times> vstore" where
  "AddQuad_free_colors posAdjust st transform pa pb pc pd texA texB texC texD colA' colB' colC' colD' =
     (let b = fst st in
      case vertexData' b of
        None \<Rightarrow> Inl NullPointer
      | Some p \<Rightarrow>
          Inr (append_quad p st
            (free_slots posAdjust b (ToUInt colA', ToUInt colB', ToUInt colC', ToUInt colD') transform
               pa pb pc pd texA texB texC texD)))"

subsection \<open>The tiled variant\<close>

text \<open>
  The inner \<open>while (tileX < width)\<close> of the tiled \<open>AddQuad\<close>, for one row at \<open>tileY\<close>
  of height \<open>tileH\<close>. The call it makes has eight \<open>int\<close> arguments and so resolves to the
  \<open>float\<close> variant. A loop that never ends is the value \<open>None\<close>.
\<close>

partial_function (option) tile_row ::
  "Vector3 \<Rightarrow> int \<Rightarrow> int \<Rightarrow> int \<Rightarrow> int \<Rightarrow> int \<Rightarrow> int \<Rightarrow> int \<Rightarrow> int \<Rightarrow> UIBatch \<times> vstore \<Rightarrow> int
     \<Rightarrow> (fault + UIBatch \<times> vstore) option" where
  "tile_row posAdjust x y width texOffsetX texOffsetY texWidth tileY tileH st tileX =
     (if tileX < width then
        (let tileW = min (width - tileX) texWidth in
         case AddQuad posAdjust st (real_of_int (x + tileX)) (real_of_int (y + tileY))
                (real_of_int tileW) (real_of_int tileH) texOffsetX texOffsetY tileW tileH of
           Inl f \<Rightarrow> Some (Inl f)
         | Inr st' \<Rightarrow>
             tile_row posAdjust x y width texOffsetX texOffsetY texWidth tileY tileH st'
               (tileX + tileW))
      else Some (Inr st))"

text \<open>The outer \<open>while (tileY < height)\<close>.\<close>

partial_function (option) tile_rows ::
  "Vector3 \<Rightarrow> int \<Rightarrow> int \<Rightarrow> int \<Rightarrow> int \<Rightarrow> int \<Rightarrow> int \<Rightarrow> int \<Rightarrow> int \<Rightarrow> UIBatch \<times> vstore \<Rightarrow> int
     \<Rightarrow> (fault + UIBatch \<times> vstore) option" where
  "tile_rows posAdjust x y width height texOffsetX texOffsetY texWidth texHeight st tileY =
     (if tileY < height then
        (let tileH = min (height - tileY) texHeight in
         Option.bind
           (tile_row posAdjust x y width texOffsetX texOffsetY texWidth tileY tileH st 0)
           (\<lambda>r. case r of
                  Inl f \<Rightarrow> Some (Inl f)
                | Inr st' \<Rightarrow>
                    tile_rows posAdjust x y width height texOffsetX texOffsetY texWidth texHeight
                      st' (tileY + tileH)))
      else Some (Inr st))"

text \<open>\<open>AddQuad(int x, int y, int width, int height, int texOffsetX, int texOffsetY,
  int texWidth, int texHeight, bool tiled)\<close>. The gate reads the element, not the batch's
  own \<open>color_\<close> and \<open>useGradient_\<close>.\<close>

definition AddQuad_tiled ::
  "Vector3 \<Rightarrow> UIBatch \<times> vstore \<Rightarrow> int \<Rightarrow> int \<Rightarrow> int \<Rightarrow> int \<Rightarrow> int \<Rightarrow> int \<Rightarrow> int \<Rightarrow> int \<Rightarrow> bool
     \<Rightarrow> (fault + UIBatch \<times> vstore) option" where
  "AddQuad_tiled posAdjust st x y width height texOffsetX texOffsetY texWidth texHeight tiled =
     (case element' (fst st) of
        None \<Rightarrow> Some (Inl NullPointer)
      | Some e \<Rightarrow>
          if \<not> (hasColorGradient e \<or> derivedColorUInt e AND 0xff000000 \<noteq> 0) then Some (Inr st)
          else if \<not> tiled then
            Some (AddQuad posAdjust st (real_of_int x) (real_of_int y) (real_of_int width)
                    (real_of_int height) texOffsetX texOffsetY texWidth texHeight)
          else
            tile_rows posAdjust x y width height texOffsetX texOffsetY texWidth texHeight st 0)"

section \<open>Border image: BorderImage.cpp\<close>

text \<open>
  \<open>BorderImage::GetBatches\<close> builds one batch for the element and adds up to nine quads to
  it, the stretchable ones through the tiled \<open>AddQuad\<close>. The \<open>BorderImage\<close> is itself the
  \<open>UIElement\<close> the batch points to; \<open>bi_element\<close> holds what the batch reads of it,
  \<open>bi_indentWidth\<close> is \<open>GetIndentWidth()\<close>, and the other fields are the members of
  the class.
\<close>

record BorderImage =
  bi_element :: BatchElement
  bi_indentWidth :: int
  bi_blendMode :: BlendMode
  bi_texture :: "nat option"
  bi_material :: "nat option"
  bi_border :: IntRect
  bi_imageBorder :: IntRect
  bi_imageRect :: IntRect
  bi_tiled :: bool
  bi_hovering :: bool

definition IntRect_ZERO :: IntRect where
  "IntRect_ZERO = \<lparr>rleft = 0, rtop = 0, rright = 0, rbottom = 0\<rparr>"

text \<open>Sequencing of calls that may fault or not return: the next call runs on the state
  the previous one left.\<close>

definition and_then ::
  "(fault + 's) option \<Rightarrow> ('s \<Rightarrow> (fault + 't) option) \<Rightarrow> (fault + 't) option" where
  "and_then r f = Option.bind r (\<lambda>v. case v of Inl e \<Rightarrow> Some (Inl e) | Inr st \<Rightarrow> f st)"

definition call_if ::
  "bool \<Rightarrow> ('s \<Rightarrow> (fault + 's) option) \<Rightarrow> 's \<Rightarrow> (fault + 's) option" where
  "call_if c f st = (if c then f st else Some (Inr st))"

text \<open>A call \<open>batch.AddQuad(...)\<close> with eight \<open>int\<close> arguments: the \<open>float\<close> variant.\<close>

definition AddQuad_ints ::
  "Vector3 \<Rightarrow> int \<Rightarrow> int \<Rightarrow> int \<Rightarrow> int \<Rightarrow> int \<Rightarrow> int \<Rightarrow> int \<Rightarrow> int \<Rightarrow> UIBatch \<times> vstore
     \<Rightarrow> (fault + UIBatch \<times> vstore) option" where
  "AddQuad_ints posAdjust x y width height texOffsetX texOffsetY texWidth texHeight st =
     Some (AddQuad posAdjust st (real_of_int x) (real_of_int y) (real_of_int width)
             (real_of_int height) texOffsetX texOffsetY texWidth texHeight)"

text \<open>The three bands of \<open>GetBatches\<close>, each inside its \<open>if\<close> on the band's height:
  top, middle and bottom; left, inner and right quad in each.\<close>

definition GetBatches_top ::
  "Vector3 \<Rightarrow> BorderImage \<Rightarrow> int \<Rightarrow> IntVector2 \<Rightarrow> IntRect \<Rightarrow> IntVector2 \<Rightarrow> IntVector2
     \<Rightarrow> UIBatch \<times> vstore \<Rightarrow> (fault + UIBatch \<times> vstore) option" where
  "GetBatches_top posAdjust self x innerSize uvBorder innerUvSize uvTopLeft st =
     (let border = bi_border self in
      and_then (and_then
        (call_if (rleft border \<noteq> 0)
           (AddQuad_ints posAdjust x 0 (rleft border) (rtop border)
              (fst uvTopLeft) (snd uvTopLeft) (rleft uvBorder) (rtop uvBorder)) st)
        (call_if (fst innerSize \<noteq> 0)
           (\<lambda>st. AddQuad_tiled posAdjust st (x + rleft border) 0 (fst innerSize) (rtop border)
                   (fst uvTopLeft + rleft uvBorder) (snd uvTopLeft)
                   (fst innerUvSize) (rtop uvBorder) (bi_tiled self))))
        (call_if (rright border \<noteq> 0)
           (AddQuad_ints posAdjust (x + rleft border + fst innerSize) 0 (rright border) (rtop border)
              (fst uvTopLeft + rleft uvBorder + fst innerUvSize) (snd uvTopLeft)
              (rright uvBorder) (rtop uvBorder))))"

definition GetBatches_middle ::
  "Vector3 \<Rightarrow> BorderImage \<Rightarrow> int \<Rightarrow> IntVector2 \<Rightarrow> IntRect \<Rightarrow> IntVector2 \<Rightarrow> IntVector2
     \<Rightarrow> UIBatch \<times> vstore \<Rightarrow> (fault + UIBatch \<times> vstore) option" where
  "GetBatches_middle posAdjust self x innerSize uvBorder innerUvSize uvTopLeft st =
     (let border = bi_border self in
      and_then (and_then
        (call_if (rleft border \<noteq> 0)
           (\<lambda>st. AddQuad_tiled posAdjust st x (rtop border) (rleft border) (snd innerSize)
                   (fst uvTopLeft) (snd uvTopLeft + rtop uvBorder)
                   (rleft uvBorder) (snd innerUvSize) (bi_tiled self)) st)
        (call_if (fst innerSize \<noteq> 0)
           (\<lambda>st. AddQuad_tiled posAdjust st (x + rleft border) (rtop border)
                   (fst innerSize) (snd innerSize)
                   (fst uvTopLeft + rleft uvBorder) (snd uvTopLeft + rtop uvBorder)
                   (fst innerUvSize) (snd innerUvSize) (bi_tiled self))))
        (call_if (rright border \<noteq> 0)
           (\<lambda>st. AddQuad_tiled posAdjust st (x + rleft border + fst innerSize) (rtop border)
                   (rright border) (snd innerSize)
                   (fst uvTopLeft + rleft uvBorder + fst innerUvSize) (snd uvTopLeft + rtop uvBorder)
                   (rright uvBorder) (snd innerUvSize) (bi_tiled self))))"

definition GetBatches_bottom ::
  "Vector3 \<Rightarrow> BorderImage \<Rightarrow> int \<Rightarrow> IntVector2 \<Rightarrow> IntRect \<Rightarrow> IntVector2 \<Rightarrow> IntVector2
     \<Rightarrow> UIBatch \<times> vstore \<Rightarrow> (fault + UIBatch \<times> vstore) option" where
  "GetBatches_bottom posAdjust self x innerSize uvBorder innerUvSize uvTopLeft st =
     (let border = bi_border self in
      and_then (and_then
        (call_if (rleft border \<noteq> 0)
           (AddQuad_ints posAdjust x (rtop border + snd innerSize) (rleft border) (rbottom border)
              (fst uvTopLeft) (snd uvTopLeft + rtop uvBorder + snd innerUvSize)
              (rleft uvBorder) (rbottom uvBorder)) st)
        (call_if (fst innerSize \<noteq> 0)
           (\<lambda>st. AddQuad_tiled posAdjust st (x + rleft border) (rtop border + snd innerSize)
                   (fst innerSize) (rbottom border)
                   (fst uvTopLeft + rleft uvBorder) (snd uvTopLeft + rtop uvBorder + snd innerUvSize)
                   (fst innerUvSize) (rbottom uvBorder) (bi_tiled self))))
        (call_if (rright border \<noteq> 0)
           (AddQuad_ints posAdjust (x + rleft border + fst innerSize) (rtop border + snd innerSize)
              (rright border) (rbottom border)
              (fst uvTopLeft + rleft uvBorder + fst innerUvSize)
              (snd uvTopLeft + rtop uvBorder + snd innerUvSize)
              (rright uvBorder) (rbottom uvBorder))))"

text \<open>\<open>BorderImage::GetBatches(batches, vertexData, currentScissor, offset)\<close>: the batch
  list, the vertex store and the element (its \<open>hovering_\<close> flag is reset) after the call.\<close>

definition BorderImage_GetBatches ::
  "Vector3 \<Rightarrow> (nat \<Rightarrow> IntVector2) \<Rightarrow> BorderImage \<Rightarrow> UIBatch list \<Rightarrow> vstore \<Rightarrow> nat \<Rightarrow> IntRect
     \<Rightarrow> IntVector2 \<Rightarrow> (fault + UIBatch list \<times> vstore \<times> BorderImage) option" where
  "BorderImage_GetBatches posAdjust texSize self batches vs vertexData currentScissor offset =
     (let el = bi_element self;
          allOpaque = \<not> (derivedOpacity el < 1 \<or> colA (cornerColor el C_TOPLEFT) < 1 \<or>
                         colA (cornerColor el C_TOPRIGHT) < 1 \<or>
                         colA (cornerColor el C_BOTTOMLEFT) < 1 \<or>
                         colA (cornerColor el C_BOTTOMRIGHT) < 1)
      in
      case UIBatch_new texSize vs (Some el)
             (if bi_blendMode self = BLEND_REPLACE \<and> \<not> allOpaque then BLEND_ALPHA
              else bi_blendMode self)
             currentScissor (bi_texture self) (Some vertexData) of
        Inl f \<Rightarrow> Some (Inl f)
      | Inr batch0 \<Rightarrow>
          (let batch = (if bi_material self \<noteq> None
                        then batch0\<lparr>customMaterial' := bi_material self\<rparr> else batch0);
               border = bi_border self;
               imageRect = bi_imageRect self;
               uvBorder = (if bi_imageBorder self = IntRect_ZERO then border
                           else bi_imageBorder self);
               x = bi_indentWidth self;
               size = (fst (elemSize el) - x, snd (elemSize el));
               innerSize = (max (fst size - rleft border - rright border) 0,
                            max (snd size - rtop border - rbottom border) 0);
               innerUvSize =
                 (max (rright imageRect - rleft imageRect - rleft uvBorder - rright uvBorder) 0,
                  max (rbottom imageRect - rtop imageRect - rtop uvBorder - rbottom uvBorder) 0);
               uvTopLeft = (rleft imageRect + fst offset, rtop imageRect + snd offset)
           in
           and_then
             (and_then
               (and_then
                 (call_if (rtop border \<noteq> 0)
                    (GetBatches_top posAdjust self x innerSize uvBorder innerUvSize uvTopLeft)
                    (batch, vs))
                 (call_if (snd innerSize \<noteq> 0)
                    (GetBatches_middle posAdjust self x innerSize uvBorder innerUvSize uvTopLeft)))
               (call_if (rbottom border \<noteq> 0)
                  (GetBatches_bottom posAdjust self x innerSize uvBorder innerUvSize uvTopLeft)))
             (\<lambda>st. Some (Inr (AddOrMerge (fst st) batches, snd st,
                              self\<lparr>bi_hovering := False\<rparr>)))))"

section \<open>Element tree and input router: UI.cpp\<close>

text \<open>
  \<open>UIElement\<close> (UIElement.h, UIElement.cpp) is not under src/. An element is an address
  into a store of element objects; the fields below are the state that UI.cpp reads through
  the getters of the class (\<open>GetParent\<close>, \<open>GetChildren\<close>, \<open>GetType\<close>,
  \<open>IsVisible\<close>, \<open>IsEnabled\<close>, \<open>GetPosition\<close>, \<open>GetSize\<close>, \<open>GetScreenPosition\<close>,
  \<open>GetCombinedScreenRect\<close>, \<open>GetPriority\<close>, \<open>GetLayoutMode\<close>,
  \<open>GetLayoutElementMaxSize\<close>, \<open>GetLayoutSpacing\<close>, \<open>GetFocusMode\<close>,
  \<open>GetDragDropMode\<close>, \<open>GetVars\<close>) and the answer of the virtual
  \<open>OnDragDropFinish\<close>. A raw pointer is taken to point to an element of the store; a weak
  pointer is expired when its address is no longer in \<open>alive'\<close>.
\<close>

datatype LayoutMode = LM_FREE | LM_HORIZONTAL | LM_VERTICAL

datatype FocusMode = FM_NOTFOCUSABLE | FM_RESETFOCUS | FM_FOCUSABLE | FM_FOCUSABLE_DEFOCUSABLE

fun focus_rank :: "FocusMode \<Rightarrow> nat" where
  "focus_rank FM_NOTFOCUSABLE = 0"
| "focus_rank FM_RESETFOCUS = 1"
| "focus_rank FM_FOCUSABLE = 2"
| "focus_rank FM_FOCUSABLE_DEFOCUSABLE = 3"

datatype Variant = VPtr "nat option" | VUInt nat

record UIElement =
  parent' :: "nat option"
  children' :: "nat list"
  typeName :: string
  visible' :: bool
  enabled' :: bool
  position' :: IntVector2
  size' :: IntVector2
  screenPos :: IntVector2
  combinedScreenRect :: IntRect
  clipChildren' :: bool
  priority' :: int
  layoutMode' :: LayoutMode
  layoutElementMaxSize :: int
  layoutSpacing' :: int
  focusMode' :: FocusMode
  dragDropMode' :: "32 word"
  vars' :: "string \<rightharpoonup> Variant"
  dragDropFinishAccept :: bool

text \<open>\<open>UI::DragData\<close> (UI.h): the timer is the tick at which it was last reset.\<close>

record DragData =
  dragButtons :: "32 word"
  numDragButtons :: int
  sumPos :: IntVector2
  dragBeginSumPos :: IntVector2
  dragBeginPending :: bool
  dragBeginTimer :: nat

text \<open>\<open>RenderToTextureData\<close>: the weak root of an off-screen surface, with the
  \<open>ScreenToElement\<close> projection of that root.\<close>

record RenderToTextureData =
  rttRootElement :: nat
  rttScreenToElement :: "IntVector2 \<Rightarrow> IntVector2"

text \<open>
  What the router calls and sends, in order. Handlers are outside UI.cpp: a callback or an
  event is recorded in the log and taken to leave the tree and the router's state as they
  are. Qualifiers and the cursor, which only travel into the handlers, are left out.
\<close>

datatype ui_event =
    EvBringToFront nat
  | EvOnClickBegin nat IntVector2 "32 word" "32 word"
  | EvUIMouseClick "nat option" IntVector2 "32 word" "32 word"
  | EvOnDoubleClick nat IntVector2 "32 word" "32 word"
  | EvUIMouseDoubleClick "nat option" IntVector2 IntVector2 "32 word" "32 word"
  | EvOnClickEnd nat IntVector2 "32 word" "32 word" nat
  | EvUIMouseClickEnd nat "nat option" IntVector2 "32 word" "32 word"
  | EvOnDragBegin nat IntVector2
  | EvDragBegin nat IntVector2
  | EvOnDragEnd nat IntVector2
  | EvDragEnd nat IntVector2
  | EvOnDragCancel nat IntVector2
  | EvDragCancel nat IntVector2
  | EvOnDragDropFinish nat nat
  | EvDragDropFinish nat nat
  | EvDefocused nat
  | EvFocused nat bool
  | EvFocusChanged "nat option" "nat option"

text \<open>
  The \<open>UI\<close> subsystem. \<open>dragElements_\<close>, a hash map keyed by weak element pointers, is
  an association list in iteration order. \<open>doubleClickIntervalMs\<close> is the value of
  \<open>(unsigned)(doubleClickInterval_ * 1000)\<close>; \<open>clickTimer'\<close> is the tick of the last
  reset of \<open>clickTimer_\<close>.
\<close>

record UI =
  elems :: "nat \<Rightarrow> UIElement"
  alive' :: "nat set"
  rootElement' :: nat
  rootModalElement' :: nat
  cursor' :: "nat option"
  focusElement' :: "nat option"
  renderToTexture' :: "RenderToTextureData list"
  dragElements' :: "(nat \<times> DragData) list"
  dragElementsCount' :: int
  dragConfirmedCount' :: int
  dragElementsConfirmed' :: "nat list"
  doubleClickElement' :: "nat option"
  doubleClickFirstPos' :: IntVector2
  clickTimer' :: nat
  doubleClickIntervalMs :: nat
  maxDoubleClickDist' :: real
  lastMouseButtons' :: "32 word"
  mouseButtons' :: "32 word"
  usingTouchInput' :: bool
  events :: "ui_event list"

definition emit :: "ui_event list \<Rightarrow> UI \<Rightarrow> UI" where
  "emit evs ui = ui\<lparr>events := events ui @ evs\<rparr>"

definition VAR_ORIGIN :: string where "VAR_ORIGIN = ''Origin''"
definition VAR_ORIGINAL_PARENT :: string where "VAR_ORIGINAL_PARENT = ''OriginalParent''"
definition VAR_ORIGINAL_CHILD_INDEX :: string where
  "VAR_ORIGINAL_CHILD_INDEX = ''OriginalChildIndex''"
definition VAR_PARENT_CHANGED :: string where "VAR_PARENT_CHANGED = ''ParentChanged''"

definition Window_type :: string where "Window_type = ''Window''"

definition M_MAX_UNSIGNED :: nat where "M_MAX_UNSIGNED = 4294967295"

definition DD_SOURCE :: "32 word" where "DD_SOURCE = 1"
definition DD_TARGET :: "32 word" where "DD_TARGET = 2"

subsection \<open>Operations of the element class\<close>

text \<open>
  Modelled from the spec: the methods of \<open>UIElement\<close> that UI.cpp calls are not under src/.
  \<^item> \<open>SetVar\<close>, \<open>GetVar(...).GetPtr()\<close>, \<open>GetVar(...).GetUInt()\<close> and erasing from
    \<open>GetVars()\<close>: the tag-value store of section 3; a missing tag reads as a null pointer
    and as 0.
  \<^item> \<open>FindChild\<close>: the sibling index of section 4.5, \<open>M_MAX_UNSIGNED\<close> when absent.
  \<^item> \<open>SetParent(parent, index)\<close>: the reparenting of section 4.5: the element leaves the
    child list of its current parent and enters the new parent's list at \<open>index\<close> (at the
    end when \<open>index\<close> is past it); a null parent leaves the element where it is.
  \<^item> \<open>SortChildren\<close>: section 4.3, children sorted by priority, stable with
    insertion-order tie-break. The sorted list is what every traversal of the children sees.
  \<^item> \<open>IsInside\<close> and \<open>IsInsideCombined\<close> on a screen position: containment in the
    element's screen rect, and in its combined rect unless children are clipped (section 4.4
    and the hit-test property of section 8); \<open>IntRect::IsInside\<close> is containment with
    exclusive right and bottom edges.
\<close>

definition upd_elem :: "UI \<Rightarrow> nat \<Rightarrow> (UIElement \<Rightarrow> UIElement) \<Rightarrow> UI" where
  "upd_elem ui e f = ui\<lparr>elems := (elems ui)(e := f (elems ui e))\<rparr>"

definition SetVar :: "UI \<Rightarrow> nat \<Rightarrow> string \<Rightarrow> Variant \<Rightarrow> UI" where
  "SetVar ui e key v = upd_elem ui e (\<lambda>el. el\<lparr>vars' := (vars' el)(key \<mapsto> v)\<rparr>)"

definition GetVarPtr :: "UI \<Rightarrow> nat \<Rightarrow> string \<Rightarrow> nat option" where
  "GetVarPtr ui e key = (case vars' (elems ui e) key of Some (VPtr p) \<Rightarrow> p | _ \<Rightarrow> None)"

definition GetVarUInt :: "UI \<Rightarrow> nat \<Rightarrow> string \<Rightarrow> nat" where
  "GetVarUInt ui e key = (case vars' (elems ui e) key of Some (VUInt n) \<Rightarrow> n | _ \<Rightarrow> 0)"

definition FindChild :: "UI \<Rightarrow> nat \<Rightarrow> nat \<Rightarrow> nat" where
  "FindChild ui p c =
     (let cs = children' (elems ui p) in
      if c \<in> set cs then length (takeWhile (\<lambda>x. x \<noteq> c) cs) else M_MAX_UNSIGNED)"

definition SetParent :: "UI \<Rightarrow> nat \<Rightarrow> nat option \<Rightarrow> nat \<Rightarrow> UI" where
  "SetParent ui e newParent index =
     (case newParent of
        None \<Rightarrow> ui
      | Some p \<Rightarrow>
          (let ui1 = (case parent' (elems ui e) of
                        None \<Rightarrow> ui
                      | Some old \<Rightarrow>
                          upd_elem ui old (\<lambda>el. el\<lparr>children' := removeAll e (children' el)\<rparr>));
               ui2 = upd_elem ui1 p
                       (\<lambda>el. el\<lparr>children' :=
                          (if index \<ge> length (children' el) then children' el @ [e]
                           else take index (children' el) @ [e] @ drop index (children' el))\<rparr>)
           in upd_elem ui2 e (\<lambda>el. el\<lparr>parent' := Some p\<rparr>)))"

definition sorted_children :: "UI \<Rightarrow> nat \<Rightarrow> nat list" where
  "sorted_children ui current =
     sort_key (\<lambda>c. priority' (elems ui c)) (children' (elems ui current))"

definition IsInside :: "UIElement \<Rightarrow> IntVector2 \<Rightarrow> bool" where
  "IsInside el p =
     (let x = fst p - fst (screenPos el); y = snd p - snd (screenPos el) in
      0 \<le> x \<and> 0 \<le> y \<and> x < fst (size' el) \<and> y < snd (size' el))"

definition IntRect_IsInside :: "IntRect \<Rightarrow> IntVector2 \<Rightarrow> bool" where
  "IntRect_IsInside r p \<longleftrightarrow>
     \<not> (fst p < rleft r \<or> snd p < rtop r \<or> fst p \<ge> rright r \<or> snd p \<ge> rbottom r)"

definition IsInsideCombined :: "UIElement \<Rightarrow> IntVector2 \<Rightarrow> bool" where
  "IsInsideCombined el p =
     (if clipChildren' el then IsInside el p else IntRect_IsInside (combinedScreenRect el) p)"

subsection \<open>Modal element\<close>

definition HasModalElement :: "UI \<Rightarrow> bool" where
  "HasModalElement ui \<longleftrightarrow> children' (elems ui (rootModalElement' ui)) \<noteq> []"

text \<open>The loop \<open>while (element && element->GetParent() != rootElement_) element =
  element->GetParent();\<close> of \<open>SetModalElement\<close> and \<open>SetFocusElement\<close>: the value of
  \<open>element\<close> when it ends. On a parent chain that never ends it does not return.\<close>

partial_function (option) top_level_walk :: "UI \<Rightarrow> nat option \<Rightarrow> nat option option" where
  "top_level_walk ui element =
     (case element of
        None \<Rightarrow> Some None
      | Some e \<Rightarrow>
          if parent' (elems ui e) \<noteq> Some (rootElement' ui)
          then top_level_walk ui (parent' (elems ui e))
          else Some (Some e))"

text \<open>\<open>UI::SetModalElement\<close>: the returned flag and the state after the call. In the
  disable branch \<open>vars\<close> is a reference to the modal element's own variable map, so that
  \<open>vars = element->GetVars()\<close> copies the top-level element's map into it before the two
  tags are erased from it.\<close>

definition SetModalElement :: "UI \<Rightarrow> nat option \<Rightarrow> bool \<Rightarrow> (bool \<times> UI) option" where
  "SetModalElement ui modalElement enable =
     (case modalElement of
        None \<Rightarrow> Some (False, ui)
      | Some m \<Rightarrow>
          if typeName (elems ui m) \<noteq> Window_type then Some (False, ui)
          else
            (let currParent = parent' (elems ui m) in
             if enable then
               (if currParent = Some (rootModalElement' ui) then Some (False, ui)
                else
                  (let ui1 = SetVar ui m VAR_ORIGINAL_PARENT (VPtr currParent);
                       ui2 = SetVar ui1 m VAR_ORIGINAL_CHILD_INDEX
                               (VUInt (case currParent of
                                         Some p \<Rightarrow> FindChild ui1 p m
                                       | None \<Rightarrow> M_MAX_UNSIGNED));
                       ui3 = SetParent ui2 m (Some (rootModalElement' ui2)) M_MAX_UNSIGNED
                   in
                   case GetVarPtr ui3 m VAR_ORIGIN of
                     None \<Rightarrow> Some (True, ui3)
                   | Some originElement \<Rightarrow>
                       Option.bind (top_level_walk ui3 (Some originElement))
                         (\<lambda>element.
                            case element of
                              None \<Rightarrow> Some (True, ui3)
                            | Some el \<Rightarrow>
                                (let ui4 = SetVar ui3 originElement VAR_PARENT_CHANGED
                                             (VPtr (Some el));
                                     oriParent = parent' (elems ui4 el);
                                     ui5 = SetVar ui4 el VAR_ORIGINAL_PARENT (VPtr oriParent);
                                     ui6 = SetVar ui5 el VAR_ORIGINAL_CHILD_INDEX
                                             (VUInt (case oriParent of
                                                       Some p \<Rightarrow> FindChild ui5 p el
                                                     | None \<Rightarrow> M_MAX_UNSIGNED))
                                 in Some (True,
                                      SetParent ui6 el (Some (rootModalElement' ui6))
                                        M_MAX_UNSIGNED)))))
             else
               (if currParent \<noteq> Some (rootModalElement' ui) then Some (False, ui)
                else
                  (let ui1 = SetParent ui m (GetVarPtr ui m VAR_ORIGINAL_PARENT)
                               (GetVarUInt ui m VAR_ORIGINAL_CHILD_INDEX);
                       ui2 = upd_elem ui1 m
                               (\<lambda>el. el\<lparr>vars' := (vars' el)(VAR_ORIGINAL_PARENT := None,
                                                              VAR_ORIGINAL_CHILD_INDEX := None)\<rparr>)
                   in
                   case GetVarPtr ui2 m VAR_ORIGIN of
                     None \<Rightarrow> Some (True, ui2)
                   | Some originElement \<Rightarrow>
                       (case GetVarPtr ui2 originElement VAR_PARENT_CHANGED of
                          None \<Rightarrow> Some (True, ui2)
                        | Some el \<Rightarrow>
                            (let ui3 = upd_elem ui2 originElement
                                         (\<lambda>oel. oel\<lparr>vars' := (vars' oel)(VAR_PARENT_CHANGED := None)\<rparr>);
                                 ui4 = SetParent ui3 el (GetVarPtr ui3 el VAR_ORIGINAL_PARENT)
                                         (GetVarUInt ui3 el VAR_ORIGINAL_CHILD_INDEX)
                             in Some (True,
                                  upd_elem ui4 m
                                    (\<lambda>mel. mel\<lparr>vars' :=
                                       (vars' (elems ui4 el))(VAR_ORIGINAL_PARENT := None,
                                          VAR_ORIGINAL_CHILD_INDEX := None)\<rparr>))))))))"

subsection \<open>Hit test\<close>

text \<open>
  \<open>UI::GetElementAt(UIElement*& result, UIElement* current, position, enabledOnly)\<close>: the
  \<open>for\<close> loop over the sorted children of \<open>current\<close> from index \<open>i\<close>, with the running
  \<open>result\<close>; the value is \<open>result\<close> when the loop ends. The recursive call on a child
  starts that child's loop at 0 and the loop of \<open>current\<close> goes on with what it leaves.
  The layout optimisation for a child without children that the position is outside of is
  \<open>layout_next\<close>: the index the loop goes on with, or \<open>None\<close> for \<open>break\<close>.
  \<open>toSkip\<close> is the quotient, truncated as in C++ and converted to \<open>unsigned\<close>; it is
  computed at \<open>i = 0\<close> only, so that \<open>i += toSkip - 1\<close> followed by \<open>++i\<close> is
  \<open>toSkip\<close>. (The quotient by \<open>layoutMaxSize + spacing = 0\<close>, undefined in C++, is 0
  here.) On a child graph with a cycle the walk does not return.
\<close>

definition layout_next :: "UI \<Rightarrow> nat \<Rightarrow> nat \<Rightarrow> nat \<Rightarrow> nat option" where
  "layout_next ui current element i =
     (let parentLayoutMode = layoutMode' (elems ui current) in
      if parentLayoutMode \<noteq> LM_FREE then
        (if i = 0 then
           (let screenPos1 = (if parentLayoutMode = LM_HORIZONTAL
                              then fst (screenPos (elems ui element))
                              else snd (screenPos (elems ui element)));
                layoutMaxSize = layoutElementMaxSize (elems ui current);
                spacing = layoutSpacing' (elems ui current)
            in
            if screenPos1 < 0 \<and> layoutMaxSize > 0 then
              (let toSkip = unat (word_of_int ((- screenPos1) sdiv (layoutMaxSize + spacing))
                                   :: 32 word)
               in if toSkip > 0 then Some toSkip else Some (i + 1))
            else Some (i + 1))
         else if parentLayoutMode = LM_HORIZONTAL then
           (if fst (screenPos (elems ui element))
                 \<ge> fst (position' (elems ui (rootElement' ui)))
                   + fst (size' (elems ui (rootElement' ui)))
            then None else Some (i + 1))
         else if parentLayoutMode = LM_VERTICAL then
           (if snd (screenPos (elems ui element))
                 \<ge> snd (position' (elems ui (rootElement' ui)))
                   + snd (size' (elems ui (rootElement' ui)))
            then None else Some (i + 1))
         else Some (i + 1))
      else Some (i + 1))"

partial_function (option) GetElementAt_walk ::
  "UI \<Rightarrow> IntVector2 \<Rightarrow> bool \<Rightarrow> nat option \<Rightarrow> nat \<Rightarrow> nat \<Rightarrow> nat option option" where
  "GetElementAt_walk ui position enabledOnly result current i =
     (let children = sorted_children ui current;
          parentLayoutMode = layoutMode' (elems ui current)
      in
      if i < length children then
        (let element = children ! i;
             hasChildren = (children' (elems ui element) \<noteq> [])
         in
         if Some element \<noteq> cursor' ui \<and> visible' (elems ui element) then
           (if IsInside (elems ui element) position then
              (let result1 = (if enabled' (elems ui element) \<or> \<not> enabledOnly
                              then Some element else result)
               in
               if hasChildren then
                 Option.bind (GetElementAt_walk ui position enabledOnly result1 element 0)
                   (\<lambda>r. GetElementAt_walk ui position enabledOnly r current (i + 1))
               else if parentLayoutMode \<noteq> LM_FREE then Some result1
               else GetElementAt_walk ui position enabledOnly result1 current (i + 1))
            else
              (if hasChildren then
                 (if IsInsideCombined (elems ui element) position then
                    Option.bind (GetElementAt_walk ui position enabledOnly result element 0)
                      (\<lambda>r. GetElementAt_walk ui position enabledOnly r current (i + 1))
                  else GetElementAt_walk ui position enabledOnly result current (i + 1))
               else
                 (case layout_next ui current element i of
                    None \<Rightarrow> Some result
                  | Some j \<Rightarrow> GetElementAt_walk ui position enabledOnly result current j)))
         else GetElementAt_walk ui position enabledOnly result current (i + 1))
      else Some result)"

text \<open>\<open>UI::GetElementAt(UIElement* root, position, enabledOnly)\<close>.\<close>

definition GetElementAt_root :: "UI \<Rightarrow> nat \<Rightarrow> IntVector2 \<Rightarrow> bool \<Rightarrow> nat option option" where
  "GetElementAt_root ui rootEl position enabledOnly =
     (let rootSize = size' (elems ui rootEl);
          rootPos = position' (elems ui rootEl)
      in
      if fst position < fst rootPos \<or> fst position > fst rootPos + fst rootSize then Some None
      else if snd position < snd rootPos \<or> snd position > snd rootPos + snd rootSize then Some None
      else
        (let positionCopy =
               (if fst rootSize > 0 \<and> snd rootSize > 0 then
                  ((if fst position \<ge> fst rootPos + fst rootSize
                    then fst rootPos + ((fst position - fst rootPos) mod fst rootSize)
                    else fst position),
                   (if snd position \<ge> snd rootPos + snd rootSize
                    then snd rootPos + ((snd position - snd rootPos) mod snd rootSize)
                    else snd position))
                else position)
         in GetElementAt_walk ui positionCopy enabledOnly None rootEl 0))"

text \<open>The loop over the render-to-texture surfaces: the element found and the position
  written to \<open>*elementScreenPosition\<close>, if any.\<close>

fun GetElementAt_rtt ::
  "UI \<Rightarrow> IntVector2 \<Rightarrow> bool \<Rightarrow> RenderToTextureData list
     \<Rightarrow> (nat option \<times> IntVector2 option) option" where
  "GetElementAt_rtt ui position enabledOnly [] = Some (None, None)"
| "GetElementAt_rtt ui position enabledOnly (data # rest) =
     (if rttRootElement data \<notin> alive' ui \<or> \<not> enabled' (elems ui (rttRootElement data))
      then GetElementAt_rtt ui position enabledOnly rest
      else
        (let screenPosition = rttScreenToElement data position in
         if IntRect_IsInside (combinedScreenRect (elems ui (rttRootElement data))) screenPosition
         then
           (case GetElementAt_root ui (rttRootElement data) screenPosition enabledOnly of
              None \<Rightarrow> None
            | Some None \<Rightarrow> GetElementAt_rtt ui position enabledOnly rest
            | Some (Some e) \<Rightarrow> Some (Some e, Some screenPosition))
         else GetElementAt_rtt ui position enabledOnly rest))"

text \<open>\<open>UI::GetElementAt(position, enabledOnly, elementScreenPosition)\<close>: the element
  returned and what is written through \<open>elementScreenPosition\<close>.\<close>

definition GetElementAt_pos ::
  "UI \<Rightarrow> IntVector2 \<Rightarrow> bool \<Rightarrow> (nat option \<times> IntVector2 option) option" where
  "GetElementAt_pos ui position enabledOnly =
     Option.bind
       (if HasModalElement ui
        then GetElementAt_root ui (rootModalElement' ui) position enabledOnly
        else Some None)
       (\<lambda>result0.
          Option.bind
            (if result0 = None then GetElementAt_root ui (rootElement' ui) position enabledOnly
             else Some result0)
            (\<lambda>result.
               if result = None \<and> renderToTexture' ui \<noteq> []
               then GetElementAt_rtt ui position enabledOnly (renderToTexture' ui)
               else Some (result, Some position)))"

text \<open>\<open>UI::GetElementAt(position, enabledOnly)\<close>.\<close>

definition GetElementAt :: "UI \<Rightarrow> IntVector2 \<Rightarrow> bool \<Rightarrow> nat option option" where
  "GetElementAt ui position enabledOnly = map_option fst (GetElementAt_pos ui position enabledOnly)"

subsection \<open>Focus\<close>

text \<open>A weak pointer as it reads in a condition: null when it is null or expired.\<close>

definition lock :: "UI \<Rightarrow> nat option \<Rightarrow> nat option" where
  "lock ui w = (case w of None \<Rightarrow> None | Some e \<Rightarrow> if e \<in> alive' ui then Some e else None)"

text \<open>\<open>UI::GetFocusableElement\<close>: up the parent chain to the first element that is not
  \<open>FM_NOTFOCUSABLE\<close>.\<close>

partial_function (option) GetFocusableElement :: "UI \<Rightarrow> nat option \<Rightarrow> nat option option" where
  "GetFocusableElement ui element =
     (case element of
        None \<Rightarrow> Some None
      | Some e \<Rightarrow>
          if focusMode' (elems ui e) \<noteq> FM_NOTFOCUSABLE then Some (Some e)
          else GetFocusableElement ui (parent' (elems ui e)))"

text \<open>The second half of \<open>UI::SetFocusElement\<close>: defocus the old element, focus the new
  one if its focus mode allows, then the global focus-changed event.\<close>

definition change_focus :: "UI \<Rightarrow> nat option \<Rightarrow> nat option \<Rightarrow> bool \<Rightarrow> UI" where
  "change_focus ui originalElement element byKey =
     (let ui1 = (case lock ui (focusElement' ui) of
                   Some oldFocusElement \<Rightarrow>
                     emit [EvDefocused oldFocusElement] (ui\<lparr>focusElement' := None\<rparr>)
                 | None \<Rightarrow> ui);
          ui2 = (case element of
                   Some e \<Rightarrow>
                     if focus_rank (focusMode' (elems ui e)) \<ge> focus_rank FM_FOCUSABLE
                     then emit [EvFocused e byKey] (ui1\<lparr>focusElement' := Some e\<rparr>)
                     else ui1
                 | None \<Rightarrow> ui1)
      in emit [EvFocusChanged originalElement element] ui2)"

definition SetFocusElement :: "UI \<Rightarrow> nat option \<Rightarrow> bool \<Rightarrow> UI option" where
  "SetFocusElement ui element byKey =
     (case element of
        None \<Rightarrow> Some (change_focus ui None None byKey)
      | Some e \<Rightarrow>
          if lock ui (focusElement' ui) = Some e then Some ui
          else
            Option.bind
              (if HasModalElement ui then top_level_walk ui (parent' (elems ui e)) else Some None)
              (\<lambda>topLevel.
                 if topLevel \<noteq> None then Some ui
                 else
                   Option.bind (GetFocusableElement ui (Some e))
                     (\<lambda>focusable.
                        case focusable of
                          None \<Rightarrow> Some ui
                        | Some f \<Rightarrow> Some (change_focus ui (Some e) (Some f) byKey))))"

subsection \<open>Drag registry\<close>

definition CountSetBits :: "32 word \<Rightarrow> int" where
  "CountSetBits w = int (length (filter (bit w) [0..<32]))"

text \<open>\<open>UI::DragElementErase\<close> on the iterator at the entry \<open>(key, dragData)\<close>.\<close>

definition DragElementErase :: "UI \<Rightarrow> nat \<times> DragData \<Rightarrow> UI" where
  "DragElementErase ui entry =
     (if dragElements' ui = [] then ui
      else
        ui\<lparr> dragElementsConfirmed' := [],
            dragConfirmedCount' := (if \<not> dragBeginPending (snd entry)
                                    then dragConfirmedCount' ui - 1 else dragConfirmedCount' ui),
            dragElements' := filter (\<lambda>kv. fst kv \<noteq> fst entry) (dragElements' ui),
            dragElementsCount' := dragElementsCount' ui - 1 \<rparr>)"

subsection \<open>Click begin\<close>

text \<open>\<open>IntVector2::Length\<close> of the difference of two points (Math/Vector2.h is not
  under src/; the Euclidean length, as a real).\<close>

definition distance :: "IntVector2 \<Rightarrow> IntVector2 \<Rightarrow> real" where
  "distance p q =
     sqrt (real_of_int ((fst p - fst q) * (fst p - fst q) + (snd p - snd q) * (snd p - snd q)))"

text \<open>
  \<open>UI::ProcessClickBegin\<close> at the tick \<open>now\<close> of the system clock. \<open>Timer\<close>
  (Core/Timer.h) is not under src/: \<open>GetMSec(true)\<close> is the time since the last reset, and
  resets. In the test for a double click it is called only after the element test, but every
  path through the function resets the timer, so the state ends with \<open>clickTimer' = now\<close>.
\<close>

definition double_click_window :: "UI \<Rightarrow> nat \<Rightarrow> IntVector2 \<Rightarrow> 32 word \<Rightarrow> bool" where
  "double_click_window ui now windowCursorPos buttons \<longleftrightarrow>
     now - clickTimer' ui < doubleClickIntervalMs ui \<and> lastMouseButtons' ui = buttons \<and>
     distance windowCursorPos (doubleClickFirstPos' ui) < maxDoubleClickDist' ui"

text \<open>The double-click test of \<open>ProcessClickBegin\<close> on the element \<open>e\<close> under the
  cursor: promote, or record the click as the first of a possible pair.\<close>

definition click_double ::
  "UI \<Rightarrow> nat \<Rightarrow> nat \<Rightarrow> IntVector2 \<Rightarrow> IntVector2 \<Rightarrow> 32 word \<Rightarrow> 32 word \<Rightarrow> UI" where
  "click_double ui e now windowCursorPos cursorPos button buttons =
     (if lock ui (doubleClickElement' ui) = Some e \<and>
         double_click_window ui now windowCursorPos buttons
      then
        emit [EvOnDoubleClick e cursorPos button buttons,
              EvUIMouseDoubleClick (Some e) (doubleClickFirstPos' ui) cursorPos button buttons]
          (ui\<lparr>doubleClickElement' := None, clickTimer' := now\<rparr>)
      else
        ui\<lparr>doubleClickElement' := Some e, doubleClickFirstPos' := windowCursorPos,
            clickTimer' := now\<rparr>)"

text \<open>The start of a drag in \<open>ProcessClickBegin\<close>: a new pending \<open>DragData\<close> for an
  element not yet in the registry, or one more button on the element's entry.\<close>

definition click_drag_start ::
  "UI \<Rightarrow> nat \<Rightarrow> nat \<Rightarrow> IntVector2 \<Rightarrow> 32 word \<Rightarrow> bool \<Rightarrow> UI" where
  "click_drag_start ui e now cursorPos button newButton =
     (let dragElementsContain = (e \<in> fst ` set (dragElements' ui)) in
      if \<not> dragElementsContain then
        ui\<lparr>dragElements' := dragElements' ui @
               [(e, \<lparr> dragButtons = button, numDragButtons = CountSetBits button,
                      sumPos = cursorPos, dragBeginSumPos = cursorPos,
                      dragBeginPending = True, dragBeginTimer = now \<rparr>)],
            dragElementsCount' := dragElementsCount' ui + 1\<rparr>
      else if newButton then
        ui\<lparr>dragElements' :=
               map (\<lambda>kv. if fst kv = e
                          then (e, (snd kv)
                            \<lparr>sumPos := (fst (sumPos (snd kv)) + fst cursorPos,
                                         snd (sumPos (snd kv)) + snd cursorPos),
                              dragBeginSumPos :=
                                (fst (dragBeginSumPos (snd kv)) + fst cursorPos,
                                 snd (dragBeginSumPos (snd kv)) + snd cursorPos),
                              dragButtons := dragButtons (snd kv) OR button,
                              numDragButtons := CountSetBits (dragButtons (snd kv) OR button)\<rparr>)
                          else kv)
                 (dragElements' ui)\<rparr>
      else ui)"

text \<open>The branch of \<open>ProcessClickBegin\<close> for a click over no element.\<close>

definition click_nothing ::
  "UI \<Rightarrow> nat \<Rightarrow> IntVector2 \<Rightarrow> IntVector2 \<Rightarrow> 32 word \<Rightarrow> 32 word \<Rightarrow> UI option" where
  "click_nothing ui now windowCursorPos cursorPos button buttons =
     Option.bind (if \<not> HasModalElement ui then SetFocusElement ui None False else Some ui)
       (\<lambda>ui1.
          let ui2 = emit [EvUIMouseClick None cursorPos button buttons] ui1 in
          Some ((if double_click_window ui2 now windowCursorPos buttons
                 then emit [EvUIMouseDoubleClick None (doubleClickFirstPos' ui2) cursorPos
                              button buttons] ui2
                 else ui2)\<lparr>clickTimer' := now\<rparr>))"

definition ProcessClickBegin ::
  "UI \<Rightarrow> nat \<Rightarrow> IntVector2 \<Rightarrow> 32 word \<Rightarrow> 32 word \<Rightarrow> bool \<Rightarrow> UI option" where
  "ProcessClickBegin ui now windowCursorPos button buttons0 cursorVisible =
     (if \<not> cursorVisible then Some ui
      else
        Option.bind (GetElementAt_pos ui windowCursorPos True)
          (\<lambda>hit.
             let element = lock ui (fst hit);
                 cursorPos = (case snd hit of Some p \<Rightarrow> p | None \<Rightarrow> (0, 0));
                 newButton = (if usingTouchInput' ui then buttons0 AND button = 0 else True);
                 buttons = buttons0 OR button
             in
             Option.bind (case element of
                            Some e \<Rightarrow> SetFocusElement ui (Some e) False
                          | None \<Rightarrow> Some ui)
               (\<lambda>ui1.
                  map_option (\<lambda>u. u\<lparr>lastMouseButtons' := buttons\<rparr>)
                    (case lock ui1 element of
                       Some e \<Rightarrow>
                         Some (click_drag_start
                                 (click_double
                                    (emit [EvBringToFront e,
                                           EvOnClickBegin e cursorPos button buttons,
                                           EvUIMouseClick (Some e) cursorPos button buttons] ui1)
                                    e now windowCursorPos cursorPos button buttons)
                                 e now cursorPos button newButton)
                     | None \<Rightarrow>
                         click_nothing ui1 now windowCursorPos cursorPos button buttons))))"

subsection \<open>Click end\<close>

text \<open>One iteration of the loop of \<open>UI::ProcessClickEnd\<close> over the drag registry: the
  state after the body has run on the entry \<open>(dragElement, dragData)\<close>.\<close>

definition ProcessClickEnd_entry ::
  "nat option \<Rightarrow> IntVector2 \<Rightarrow> 32 word \<Rightarrow> 32 word \<Rightarrow> bool \<Rightarrow> nat \<times> DragData \<Rightarrow> UI \<Rightarrow> UI" where
  "ProcessClickEnd_entry element cursorPos button buttons cursorVisible entry ui =
     (let dragElement = fst entry; dragData = snd entry in
      if dragElement \<notin> alive' ui \<or> \<not> cursorVisible then DragElementErase ui entry
      else if dragButtons dragData AND button \<noteq> 0 then
        (let ui1 = (case element of
                      Some e \<Rightarrow> emit [EvOnClickEnd e cursorPos button buttons dragElement] ui
                    | None \<Rightarrow> ui);
             ui2 = emit [EvUIMouseClickEnd dragElement element cursorPos button buttons] ui1;
             ui3 =
               (if enabled' (elems ui dragElement) \<and> visible' (elems ui dragElement) \<and>
                   \<not> dragBeginPending dragData
                then
                  (let ui4 = emit [EvOnDragEnd dragElement cursorPos,
                                   EvDragEnd dragElement cursorPos] ui2
                   in
                   case element of
                     Some e \<Rightarrow>
                       if dragDropMode' (elems ui dragElement) AND DD_SOURCE \<noteq> 0 \<and>
                          dragDropMode' (elems ui e) AND DD_TARGET \<noteq> 0 \<and> e \<noteq> dragElement
                       then
                         (let ui5 = emit [EvOnDragDropFinish e dragElement] ui4 in
                          if dragDropFinishAccept (elems ui e)
                          then emit [EvDragDropFinish dragElement e] ui5 else ui5)
                       else ui4
                   | None \<Rightarrow> ui4)
                else ui2)
         in DragElementErase ui3 entry)
      else ui)"

text \<open>The loop: the entries of the registry in iteration order.\<close>

fun ProcessClickEnd_loop ::
  "nat option \<Rightarrow> IntVector2 \<Rightarrow> 32 word \<Rightarrow> 32 word \<Rightarrow> bool \<Rightarrow> (nat \<times> DragData) list \<Rightarrow> UI \<Rightarrow> UI"
  where
  "ProcessClickEnd_loop element cursorPos button buttons cursorVisible [] ui = ui"
| "ProcessClickEnd_loop element cursorPos button buttons cursorVisible (entry # rest) ui =
     ProcessClickEnd_loop element cursorPos button buttons cursorVisible rest
       (ProcessClickEnd_entry element cursorPos button buttons cursorVisible entry ui)"

text \<open>\<open>UI::ProcessClickEnd\<close>: the element under the cursor is looked up only when the
  cursor is visible; \<open>cursorPos\<close> starts as \<open>windowCursorPos\<close>.\<close>

definition ProcessClickEnd :: "UI \<Rightarrow> IntVector2 \<Rightarrow> 32 word \<Rightarrow> 32 word \<Rightarrow> bool \<Rightarrow> UI option" where
  "ProcessClickEnd ui windowCursorPos button buttons cursorVisible =
     Option.bind
       (if cursorVisible then GetElementAt_pos ui windowCursorPos True else Some (None, None))
       (\<lambda>hit.
          Some (ProcessClickEnd_loop (lock ui (fst hit))
                  (case snd hit of Some p \<Rightarrow> p | None \<Rightarrow> windowCursorPos)
                  button buttons cursorVisible (dragElements' ui) ui))"

subsection \<open>Drag cancel\<close>

text \<open>The loop of \<open>UI::ProcessDragCancel\<close>, and the function; \<open>cursorPos\<close> is the position
  \<open>GetCursorPositionAndVisible\<close> reports (it reads the input subsystem).\<close>

fun ProcessDragCancel_loop :: "IntVector2 \<Rightarrow> (nat \<times> DragData) list \<Rightarrow> UI \<Rightarrow> UI" where
  "ProcessDragCancel_loop cursorPos [] ui = ui"
| "ProcessDragCancel_loop cursorPos (entry # rest) ui =
     (let dragElement = fst entry; dragData = snd entry in
      if dragElement \<in> alive' ui \<and> enabled' (elems ui dragElement) \<and>
         visible' (elems ui dragElement) \<and> \<not> dragBeginPending dragData
      then
        ProcessDragCancel_loop cursorPos rest
          (DragElementErase
             (emit [EvOnDragCancel dragElement cursorPos, EvDragCancel dragElement cursorPos] ui)
             entry)
      else ProcessDragCancel_loop cursorPos rest ui)"

definition ProcessDragCancel :: "UI \<Rightarrow> IntVector2 \<Rightarrow> UI" where
  "ProcessDragCancel ui cursorPos =
     (if usingTouchInput' ui then ui
      else ProcessDragCancel_loop cursorPos (dragElements' ui) ui)"

section \<open>Notions used by the properties\<close>

subsection \<open>Runs of candidates\<close>

text \<open>Feeding a sequence of candidates to \<open>AddOrMerge\<close>, first to last, as the element
  traversal does with the batches of successive elements.\<close>

definition AddOrMerge_all :: "UIBatch list \<Rightarrow> UIBatch list \<Rightarrow> UIBatch list" where
  "AddOrMerge_all batches cs = foldl (\<lambda>bs c. AddOrMerge c bs) batches cs"

text \<open>Identical render state, in the sense of the data model: blend mode, scissor, texture,
  custom material and vertex buffer. A run is append-contiguous when each candidate starts
  where its predecessor ends.\<close>

definition same_render_state :: "UIBatch \<Rightarrow> UIBatch \<Rightarrow> bool" where
  "same_render_state a b \<longleftrightarrow>
     blendMode' a = blendMode' b \<and> scissor' a = scissor' b \<and> texture' a = texture' b \<and>
     customMaterial' a = customMaterial' b \<and> vertexData' a = vertexData' b"

fun mergeable_run :: "UIBatch list \<Rightarrow> bool" where
  "mergeable_run (a # b # cs) \<longleftrightarrow>
     same_render_state a b \<and> vertexStart' b = vertexEnd' a \<and> mergeable_run (b # cs)"
| "mergeable_run _ \<longleftrightarrow> True"

subsection \<open>Notions used by the properties of the batch\<close>

text \<open>The condition under which the rectangle variants return at once: no gradient in use
  and a zero alpha byte in \<open>color_\<close>.\<close>

definition zero_alpha :: "UIBatch \<Rightarrow> bool" where
  "zero_alpha b \<longleftrightarrow> \<not> useGradient' b \<and> color' b AND 0xff000000 = 0"

text \<open>\<open>useGradient_\<close> is the batch's copy of the element's gradient flag:
  \<open>SetDefaultColor\<close> writes \<open>HasColorGradient()\<close> into it and \<open>SetColor\<close> clears it, so
  that it is set only on a batch whose element has a gradient.\<close>

definition batch_consistent :: "UIBatch \<Rightarrow> bool" where
  "batch_consistent b \<longleftrightarrow>
     (useGradient' b \<longrightarrow> (\<exists>e. element' b = Some e \<and> hasColorGradient e))"

text \<open>A batch whose element and vertex buffer are not null, as the five-argument
  constructor builds it for a live element.\<close>

definition live_batch :: "UIBatch \<Rightarrow> bool" where
  "live_batch b \<longleftrightarrow> element' b \<noteq> None \<and> vertexData' b \<noteq> None"

text \<open>
  The partition of section 4.1, in the spec's words: along one axis of length \<open>extent\<close>
  with tile size \<open>tex\<close> there are \<open>\<lceil>extent / tex\<rceil>\<close> spans, starting at the multiples of
  \<open>tex\<close>, each of size \<open>tex\<close> except the last, which is clipped to what remains; the grid
  lists (offset x, offset y, width, height) row by row from the origin.
\<close>

definition tile_spans :: "int \<Rightarrow> int \<Rightarrow> (int \<times> int) list" where
  "tile_spans extent tex =
     (let n = nat \<lceil>real_of_int extent / real_of_int tex\<rceil> in
      map (\<lambda>k. (int k * tex, if Suc k < n then tex else extent - int k * tex)) [0..<n])"

definition tile_grid :: "int \<Rightarrow> int \<Rightarrow> int \<Rightarrow> int \<Rightarrow> (int \<times> int \<times> int \<times> int) list" where
  "tile_grid W H tw th =
     concat (map (\<lambda>(oy, h). map (\<lambda>(ox, w). (ox, oy, w, h)) (tile_spans W tw))
               (tile_spans H th))"

text \<open>The spans as the loops compute them, with \<open>Min\<close>.\<close>

definition tile_columns :: "int \<Rightarrow> int \<Rightarrow> (int \<times> int) list" where
  "tile_columns extent tex =
     map (\<lambda>k. (int k * tex, min (extent - int k * tex) tex))
       [0..<nat \<lceil>real_of_int extent / real_of_int tex\<rceil>]"

text \<open>The slots of the sub-quad for one tile: the call
  \<open>AddQuad(x + tileX, y + tileY, tileW, tileH, texOffsetX, texOffsetY, tileW, tileH)\<close>.\<close>

definition tile_slots ::
  "Vector3 \<Rightarrow> UIBatch \<Rightarrow> BatchElement \<Rightarrow> int \<Rightarrow> int \<Rightarrow> int \<Rightarrow> int \<Rightarrow> int \<times> int \<times> int \<times> int
     \<Rightarrow> vslot list" where
  "tile_slots pa b e x y tox toy t =
     (case t of (ox, oy, w, h) \<Rightarrow>
        rect_slots pa b e (real_of_int (x + ox)) (real_of_int (y + oy))
          (real_of_int w) (real_of_int h) tox toy w h)"

subsection \<open>Sample data\<close>

definition ex_element :: BatchElement where
  "ex_element =
     \<lparr> derivedColorUInt = 0xffffffff, hasColorGradient = False, screenPosition = (0, 0),
       elemSize = (100, 50),
       cornerColor = (\<lambda>_. \<lparr>colR = 1, colG = 1, colB = 1, colA = 1\<rparr>),
       derivedOpacity = 1 \<rparr>"

text \<open>An opaque white batch on buffer 0 and texture 1 with the vertex range \<open>[s, e)\<close>.\<close>

definition ex_batch :: "nat \<Rightarrow> nat \<Rightarrow> UIBatch" where
  "ex_batch s e =
     \<lparr> element' = Some ex_element, blendMode' = BLEND_ALPHA,
       scissor' = \<lparr>rleft = 0, rtop = 0, rright = 800, rbottom = 600\<rparr>,
       texture' = Some 1, invTextureSize' = (1, 1), vertexData' = Some 0,
       vertexStart' = s, vertexEnd' = e, color' = 0xffffffff, useGradient' = False,
       customMaterial' = None \<rparr>"

text \<open>An element whose derived colour has alpha 0, and a batch on it with the same colour.\<close>

definition ex_transparent_element :: BatchElement where
  "ex_transparent_element = ex_element\<lparr>derivedColorUInt := 0x00ffffff\<rparr>"

definition ex_transparent_batch :: UIBatch where
  "ex_transparent_batch =
     (ex_batch 0 0)\<lparr>element' := Some ex_transparent_element, color' := 0x00ffffff\<rparr>"

text \<open>The empty vertex store and the identity transform.\<close>

definition ex_vstore :: vstore where
  "ex_vstore = (\<lambda>_. [])"

definition ex_identity :: Matrix3x4 where
  "ex_identity = ((1, 0, 0, 0), (0, 1, 0, 0), (0, 0, 1, 0))"

text \<open>A tiled 10x10 border image with borders of 2 on every side over a 4x4 image rect:
  the inner texture region is \<open>Max(4 - 2 - 2, 0) = 0\<close> wide.\<close>

definition ex_border_image :: BorderImage where
  "ex_border_image =
     \<lparr> bi_element = ex_element\<lparr>elemSize := (10, 10)\<rparr>, bi_indentWidth = 0,
       bi_blendMode = BLEND_REPLACE, bi_texture = Some 1, bi_material = None,
       bi_border = \<lparr>rleft = 2, rtop = 2, rright = 2, rbottom = 2\<rparr>,
       bi_imageBorder = IntRect_ZERO,
       bi_imageRect = \<lparr>rleft = 0, rtop = 0, rright = 4, rbottom = 4\<rparr>,
       bi_tiled = True, bi_hovering = False \<rparr>"

definition ex_texSize :: "nat \<Rightarrow> IntVector2" where
  "ex_texSize = (\<lambda>_. (4, 4))"

subsection \<open>Notions used by the properties of the router\<close>

text \<open>
  The subtree below an element: \<open>descendant ui p d\<close> holds when \<open>d\<close> is reached from \<open>p\<close>
  by following \<open>children_\<close> one or more times.
\<close>

inductive descendant :: "UI \<Rightarrow> nat \<Rightarrow> nat \<Rightarrow> bool" for ui :: UI where
  child: "c \<in> set (children' (elems ui p)) \<Longrightarrow> descendant ui p c"
| step: "descendant ui p c \<Longrightarrow> d \<in> set (children' (elems ui c)) \<Longrightarrow> descendant ui p d"

code_pred descendant .

text \<open>
  What a walk below \<open>current\<close> may leave in \<open>result\<close>: the value it started with, or an
  element of the subtree.
\<close>

definition found_below :: "UI \<Rightarrow> nat \<Rightarrow> nat option \<Rightarrow> nat option \<Rightarrow> bool" where
  "found_below ui current result r \<longleftrightarrow>
     r = result \<or> (\<exists>e. r = Some e \<and> descendant ui current e)"

text \<open>
  The element whose drag begin, drag end or drag cancel an event reports, for the events
  of the drag life cycle.
\<close>

fun drag_event_of :: "ui_event \<Rightarrow> nat option" where
  "drag_event_of (EvOnDragBegin e p) = Some e"
| "drag_event_of (EvDragBegin e p) = Some e"
| "drag_event_of (EvOnDragEnd e p) = Some e"
| "drag_event_of (EvDragEnd e p) = Some e"
| "drag_event_of (EvOnDragCancel e p) = Some e"
| "drag_event_of (EvDragCancel e p) = Some e"
| "drag_event_of _ = None"

text \<open>
  The events of one pass of the loop of \<open>ProcessClickEnd\<close> over an entry whose element
  is alive and whose buttons include the released one.
\<close>

definition click_end_events ::
  "UI \<Rightarrow> nat option \<Rightarrow> IntVector2 \<Rightarrow> 32 word \<Rightarrow> 32 word \<Rightarrow> nat \<times> DragData \<Rightarrow> ui_event list" where
  "click_end_events ui element cursorPos button buttons entry =
     (case element of Some e \<Rightarrow> [EvOnClickEnd e cursorPos button buttons (fst entry)] | None \<Rightarrow> [])
     @ [EvUIMouseClickEnd (fst entry) element cursorPos button buttons]
     @ (if enabled' (elems ui (fst entry)) \<and> visible' (elems ui (fst entry)) \<and>
           \<not> dragBeginPending (snd entry)
        then [EvOnDragEnd (fst entry) cursorPos, EvDragEnd (fst entry) cursorPos]
             @ (case element of
                  Some e \<Rightarrow>
                    if dragDropMode' (elems ui (fst entry)) AND DD_SOURCE \<noteq> 0 \<and>
                       dragDropMode' (elems ui e) AND DD_TARGET \<noteq> 0 \<and> e \<noteq> fst entry
                    then [EvOnDragDropFinish e (fst entry)]
                         @ (if dragDropFinishAccept (elems ui e)
                            then [EvDragDropFinish (fst entry) e] else [])
                    else []
                | None \<Rightarrow> [])
        else [])"

text \<open>
  The test under which the loop of \<open>ProcessClickEnd\<close> calls \<open>OnDragEnd\<close> on an entry.
\<close>

definition drag_end_fires :: "UI \<Rightarrow> 32 word \<Rightarrow> bool \<Rightarrow> nat \<times> DragData \<Rightarrow> bool" where
  "drag_end_fires ui button cursorVisible entry \<longleftrightarrow>
     cursorVisible \<and> fst entry \<in> alive' ui \<and> dragButtons (snd entry) AND button \<noteq> 0 \<and>
     enabled' (elems ui (fst entry)) \<and> visible' (elems ui (fst entry)) \<and>
     \<not> dragBeginPending (snd entry)"

text \<open>
  The two events of a double click: the element's \<open>OnDoubleClick\<close> and the
  \<open>E_UIMOUSEDOUBLECLICK\<close> event.
\<close>

fun is_double_click :: "ui_event \<Rightarrow> bool" where
  "is_double_click (EvOnDoubleClick e p b bs) = True"
| "is_double_click (EvUIMouseDoubleClick e p q b bs) = True"
| "is_double_click _ = False"

text \<open>
  What a change of focus leaves alone: the element store, the drag registry and the
  double-click bookkeeping; the events it adds are no double clicks.
\<close>

definition same_router :: "UI \<Rightarrow> UI \<Rightarrow> bool" where
  "same_router ui ui1 \<longleftrightarrow>
     elems ui1 = elems ui \<and> alive' ui1 = alive' ui \<and> dragElements' ui1 = dragElements' ui \<and>
     doubleClickElement' ui1 = doubleClickElement' ui \<and>
     doubleClickFirstPos' ui1 = doubleClickFirstPos' ui \<and> clickTimer' ui1 = clickTimer' ui \<and>
     doubleClickIntervalMs ui1 = doubleClickIntervalMs ui \<and>
     maxDoubleClickDist' ui1 = maxDoubleClickDist' ui \<and>
     lastMouseButtons' ui1 = lastMouseButtons' ui \<and> usingTouchInput' ui1 = usingTouchInput' ui \<and>
     (\<exists>evs. events ui1 = events ui @ evs \<and> \<not> list_ex is_double_click evs)"

text \<open>
  Finite depth, the condition under which the walks of the tree return:
  \<open>subtree_within ui n p\<close> holds when no chain of children from \<open>p\<close> is longer than
  \<open>n\<close>, and \<open>parents_within ui n w\<close> when the chain of parents from \<open>w\<close> ends within
  \<open>n\<close> steps.
\<close>

fun subtree_within :: "UI \<Rightarrow> nat \<Rightarrow> nat \<Rightarrow> bool" where
  "subtree_within ui 0 p \<longleftrightarrow> children' (elems ui p) = []"
| "subtree_within ui (Suc n) p \<longleftrightarrow> (\<forall>c\<in>set (children' (elems ui p)). subtree_within ui n c)"

fun parents_within :: "UI \<Rightarrow> nat \<Rightarrow> nat option \<Rightarrow> bool" where
  "parents_within ui n None \<longleftrightarrow> True"
| "parents_within ui 0 (Some e) \<longleftrightarrow> False"
| "parents_within ui (Suc n) (Some e) \<longleftrightarrow> parents_within ui n (parent' (elems ui e))"

text \<open>
  The roots the hit test walks from (the root, the modal root and the roots rendered to
  texture) have subtrees of depth at most \<open>n\<close>; every live element has at most \<open>n\<close>
  ancestors.
\<close>

definition children_bounded :: "UI \<Rightarrow> nat \<Rightarrow> bool" where
  "children_bounded ui n \<longleftrightarrow>
     subtree_within ui n (rootElement' ui) \<and> subtree_within ui n (rootModalElement' ui) \<and>
     (\<forall>data\<in>set (renderToTexture' ui). subtree_within ui n (rttRootElement data))"

definition parents_bounded :: "UI \<Rightarrow> nat \<Rightarrow> bool" where
  "parents_bounded ui n \<longleftrightarrow> (\<forall>e\<in>alive' ui. parents_within ui n (Some e))"

subsection \<open>Sample element trees\<close>

text \<open>
  A visible, enabled, not focusable element without children, and a box of a given parent,
  children, position, size and priority.
\<close>

definition ex_blank :: UIElement where
  "ex_blank =
     \<lparr> parent' = None, children' = [], typeName = ''UIElement'', visible' = True,
       enabled' = True, position' = (0, 0), size' = (0, 0), screenPos = (0, 0),
       combinedScreenRect = \<lparr>rleft = 0, rtop = 0, rright = 0, rbottom = 0\<rparr>,
       clipChildren' = False, priority' = 0, layoutMode' = LM_FREE, layoutElementMaxSize = 0,
       layoutSpacing' = 0, focusMode' = FM_NOTFOCUSABLE, dragDropMode' = 0,
       vars' = Map.empty, dragDropFinishAccept = True \<rparr>"

definition ex_box :: "nat option \<Rightarrow> nat list \<Rightarrow> int \<Rightarrow> int \<Rightarrow> int \<Rightarrow> int \<Rightarrow> int \<Rightarrow> UIElement" where
  "ex_box p cs x y w h prio =
     ex_blank\<lparr> parent' := p, children' := cs, position' := (x, y), size' := (w, h),
               screenPos := (x, y),
               combinedScreenRect := \<lparr>rleft = x, rtop = y, rright = x + w, rbottom = y + h\<rparr>,
               priority' := prio \<rparr>"

text \<open>
  The root 0 (800x600) with the children 2 (200x200 at the origin, priority 0) and
  3 (100x50 at the origin, priority 10); the modal root 1 without children; a window 4
  (100x100 at (300, 300)) recorded under the root.
\<close>

definition ex_elems :: "nat \<Rightarrow> UIElement" where
  "ex_elems =
     (\<lambda>_. ex_blank)
       (0 := ex_box None [2, 3] 0 0 800 600 0,
        1 := ex_box None [] 0 0 800 600 0,
        2 := ex_box (Some 0) [] 0 0 200 200 0,
        3 := ex_box (Some 0) [] 0 0 100 50 10,
        4 := (ex_box (Some 0) [] 300 300 100 100 0)\<lparr>typeName := ''Window''\<rparr>)"

definition ex_ui :: UI where
  "ex_ui =
     \<lparr> elems = ex_elems, alive' = {0, 1, 2, 3, 4}, rootElement' = 0, rootModalElement' = 1,
       cursor' = None, focusElement' = None, renderToTexture' = [], dragElements' = [],
       dragElementsCount' = 0, dragConfirmedCount' = 0, dragElementsConfirmed' = [],
       doubleClickElement' = None, doubleClickFirstPos' = (0, 0), clickTimer' = 0,
       doubleClickIntervalMs = 500, maxDoubleClickDist' = 10, lastMouseButtons' = 0,
       mouseButtons' = 0, usingTouchInput' = False, events = [] \<rparr>"

text \<open>
  The same tree with the window 4 as the modal element, under the modal root.
\<close>

definition ex_ui_modal :: UI where
  "ex_ui_modal =
     ex_ui\<lparr> elems := ex_elems
               (1 := ex_box None [4] 0 0 800 600 0,
                4 := (ex_box (Some 1) [] 300 300 100 100 0)\<lparr>typeName := ''Window''\<rparr>) \<rparr>"

text \<open>
  A drag of element 3 with the buttons \<open>bs\<close>, pending or begun, and the router tracking
  it.
\<close>

definition ex_drag :: "32 word \<Rightarrow> bool \<Rightarrow> DragData" where
  "ex_drag bs pending =
     \<lparr> dragButtons = bs, numDragButtons = CountSetBits bs, sumPos = (50, 25),
       dragBeginSumPos = (50, 25), dragBeginPending = pending, dragBeginTimer = 0 \<rparr>"

definition ex_ui_drag :: "32 word \<Rightarrow> bool \<Rightarrow> UI" where
  "ex_ui_drag bs pending =
     ex_ui\<lparr> dragElements' := [(3, ex_drag bs pending)], dragElementsCount' := 1,
            dragConfirmedCount' := (if pending then 0 else 1) \<rparr>"

text \<open>
  The router tracking a begun drag of element 3, which has been disabled.
\<close>

definition ex_ui_drag_disabled :: UI where
  "ex_ui_drag_disabled =
     (ex_ui_drag 1 False)\<lparr> elems := ex_elems(3 := (ex_elems 3)\<lparr>enabled' := False\<rparr>) \<rparr>"

text \<open>
  The router after a click of button 1 on element 3 at (50, 25) at time 0, and after a
  second such click at time 100.
\<close>

definition ex_ui_clicked :: UI where
  "ex_ui_clicked =
     ex_ui\<lparr> dragElements' := [(3, ex_drag 1 True)], dragElementsCount' := 1,
            doubleClickElement' := Some 3, doubleClickFirstPos' := (50, 25), clickTimer' := 0,
            lastMouseButtons' := 1,
            events := [EvBringToFront 3, EvOnClickBegin 3 (50, 25) 1 1,
                       EvUIMouseClick (Some 3) (50, 25) 1 1] \<rparr>"

definition ex_ui_double :: UI where
  "ex_ui_double =
     ex_ui_clicked\<lparr>
       dragElements' := [(3, (ex_drag 1 True)\<lparr>sumPos := (100, 50),
                                               dragBeginSumPos := (100, 50)\<rparr>)],
       doubleClickElement' := None, clickTimer' := 100,
       events := events ex_ui_clicked @
                 [EvBringToFront 3, EvOnClickBegin 3 (50, 25) 1 1,
                  EvUIMouseClick (Some 3) (50, 25) 1 1, EvOnDoubleClick 3 (50, 25) 1 1,
                  EvUIMouseDoubleClick (Some 3) (50, 25) (50, 25) 1 1] \<rparr>"

text \<open>
  The router after a click of button 1 on the box 2 at (199, 25) at time 0.
\<close>

definition ex_ui_clicked_box :: UI where
  "ex_ui_clicked_box =
     ex_ui\<lparr> dragElements' := [(2, (ex_drag 1 True)\<lparr>sumPos := (199, 25),
                                                     dragBeginSumPos := (199, 25)\<rparr>)],
            dragElementsCount' := 1,
            doubleClickElement' := Some 2, doubleClickFirstPos' := (199, 25), clickTimer' := 0,
            lastMouseButtons' := 1,
            events := [EvBringToFront 2, EvOnClickBegin 2 (199, 25) 1 1,
                       EvUIMouseClick (Some 2) (199, 25) 1 1] \<rparr>"

section \<open>Properties of the batch merger\<close>

text \<open>
  C1 as stated fails: \<open>Merge\<close> does not compare \<open>customMaterial_\<close>. Two contiguous batches
  that differ only in their custom material are merged.
\<close>

theorem Merge_custom_material_counterexample:
  "fst (Merge (ex_batch 0 36) ((ex_batch 36 72)\<lparr>customMaterial' := Some 7\<rparr>)) = True
   \<and> customMaterial' (ex_batch 0 36) \<noteq> customMaterial' ((ex_batch 36 72)\<lparr>customMaterial' := Some 7\<rparr>)"
  by (simp add: Merge_def ex_batch_def)

text \<open>
  C1, amended: \<open>Merge\<close> returns true if and only if the two batches agree on blend mode,
  scissor rect, texture and vertex-buffer identity and the candidate's vertex start equals
  the receiver's vertex end (the custom material is not compared); when it returns true the
  receiver's vertex end becomes the candidate's and nothing else changes; when it returns
  false the receiver is unchanged.
\<close>

theorem Merge_spec:
  "(fst (Merge self batch) \<longleftrightarrow>
      blendMode' batch = blendMode' self \<and> scissor' batch = scissor' self \<and>
      texture' batch = texture' self \<and> vertexData' batch = vertexData' self \<and>
      vertexStart' batch = vertexEnd' self)
   \<and> (fst (Merge self batch) \<longrightarrow> snd (Merge self batch) = self\<lparr>vertexEnd' := vertexEnd' batch\<rparr>)
   \<and> (\<not> fst (Merge self batch) \<longrightarrow> snd (Merge self batch) = self)"
  by (simp add: Merge_def)

theorem Merge_spec_witness:
  "fst (Merge (ex_batch 0 36) (ex_batch 36 72))
   \<and> snd (Merge (ex_batch 0 36) (ex_batch 36 72)) = ex_batch 0 72
   \<and> \<not> fst (Merge (ex_batch 0 36) (ex_batch 40 72))
   \<and> snd (Merge (ex_batch 0 36) (ex_batch 40 72)) = ex_batch 0 36"
  using Merge_spec [of "ex_batch 0 36" "ex_batch 36 72"]
        Merge_spec [of "ex_batch 0 36" "ex_batch 40 72"]
  by (simp add: ex_batch_def)

lemma AddOrMerge_merges:
  assumes "vertexEnd' c \<noteq> vertexStart' c" "same_render_state a c" "vertexStart' c = vertexEnd' a"
  shows "AddOrMerge c (pre @ [a]) = pre @ [a\<lparr>vertexEnd' := vertexEnd' c\<rparr>]"
  using assms by (simp add: AddOrMerge_def Merge_def same_render_state_def)

lemma AddOrMerge_run:
  assumes "mergeable_run (a # cs)" "\<forall>c\<in>set cs. vertexEnd' c \<noteq> vertexStart' c"
  shows "AddOrMerge_all (pre @ [a]) cs = pre @ [a\<lparr>vertexEnd' := vertexEnd' (last (a # cs))\<rparr>]"
  using assms
proof (induction cs arbitrary: a)
  case Nil
  then show ?case by (simp add: AddOrMerge_all_def)
next
  case (Cons c cs)
  let ?a = "a\<lparr>vertexEnd' := vertexEnd' c\<rparr>"
  from Cons.prems have step: "AddOrMerge c (pre @ [a]) = pre @ [?a]"
    by (intro AddOrMerge_merges) simp_all
  have run: "mergeable_run (?a # cs)"
    using Cons.prems(1) by (cases cs) (simp_all add: same_render_state_def)
  have "AddOrMerge_all (pre @ [a]) (c # cs) = AddOrMerge_all (pre @ [?a]) cs"
    by (simp add: AddOrMerge_all_def step)
  also have "\<dots> = pre @ [?a\<lparr>vertexEnd' := vertexEnd' (last (?a # cs))\<rparr>]"
    using Cons.IH [OF run] Cons.prems(2) by simp
  finally show ?case by (cases cs) simp_all
qed

text \<open>
  C2: \<open>AddOrMerge\<close> leaves the list unchanged for an empty candidate; otherwise it merges
  the candidate into the last entry when \<open>Merge\<close> succeeds and appends it when the list is
  empty or \<open>Merge\<close> fails. Hence a non-empty run of non-empty candidates with identical
  render state and append-contiguous ranges, fed to an empty list, leaves exactly one entry,
  from the start of the first candidate to the end of the last; and a non-empty candidate
  whose blend mode, scissor or texture differs from the last entry's is appended as a
  separate entry.
\<close>

theorem AddOrMerge_spec:
  "(vertexEnd' batch = vertexStart' batch \<longrightarrow> AddOrMerge batch batches = batches)
   \<and> (vertexEnd' batch \<noteq> vertexStart' batch \<and> batches \<noteq> [] \<and> fst (Merge (last batches) batch) \<longrightarrow>
        AddOrMerge batch batches = butlast batches @ [snd (Merge (last batches) batch)])
   \<and> (vertexEnd' batch \<noteq> vertexStart' batch \<and> (batches = [] \<or> \<not> fst (Merge (last batches) batch)) \<longrightarrow>
        AddOrMerge batch batches = batches @ [batch])
   \<and> (cs \<noteq> [] \<and> mergeable_run cs \<and> (\<forall>c\<in>set cs. vertexEnd' c \<noteq> vertexStart' c) \<longrightarrow>
        AddOrMerge_all [] cs = [(hd cs)\<lparr>vertexEnd' := vertexEnd' (last cs)\<rparr>])
   \<and> (vertexEnd' batch \<noteq> vertexStart' batch \<and> batches \<noteq> [] \<and>
        (blendMode' batch \<noteq> blendMode' (last batches) \<or> scissor' batch \<noteq> scissor' (last batches)
         \<or> texture' batch \<noteq> texture' (last batches)) \<longrightarrow>
        AddOrMerge batch batches = batches @ [batch])"
proof (intro conjI impI)
  assume "cs \<noteq> [] \<and> mergeable_run cs \<and> (\<forall>c\<in>set cs. vertexEnd' c \<noteq> vertexStart' c)"
  then obtain a rest where cs: "cs = a # rest" and run: "mergeable_run (a # rest)"
    and ne: "\<forall>c\<in>set (a # rest). vertexEnd' c \<noteq> vertexStart' c"
    by (cases cs) auto
  have "AddOrMerge_all [] (a # rest) = AddOrMerge_all ([] @ [a]) rest"
    using ne by (simp add: AddOrMerge_all_def AddOrMerge_def)
  also have "\<dots> = [] @ [a\<lparr>vertexEnd' := vertexEnd' (last (a # rest))\<rparr>]"
    using ne by (intro AddOrMerge_run [OF run]) simp
  finally show "AddOrMerge_all [] cs = [(hd cs)\<lparr>vertexEnd' := vertexEnd' (last cs)\<rparr>]"
    by (simp add: cs)
qed (auto simp: AddOrMerge_def Merge_def)

theorem AddOrMerge_spec_witness:
  "AddOrMerge (ex_batch 36 36) [ex_batch 0 36] = [ex_batch 0 36]
   \<and> AddOrMerge (ex_batch 36 72) [ex_batch 0 36] = [ex_batch 0 72]
   \<and> AddOrMerge (ex_batch 36 72) [] = [ex_batch 36 72]
   \<and> AddOrMerge_all [] [ex_batch 0 36, ex_batch 36 72, ex_batch 72 108] = [ex_batch 0 108]
   \<and> AddOrMerge ((ex_batch 36 72)\<lparr>blendMode' := BLEND_ADD\<rparr>) [ex_batch 0 36]
       = [ex_batch 0 36, (ex_batch 36 72)\<lparr>blendMode' := BLEND_ADD\<rparr>]"
  using AddOrMerge_spec [of "ex_batch 36 36" "[ex_batch 0 36]" "[]"]
        AddOrMerge_spec [of "ex_batch 36 72" "[ex_batch 0 36]"
                            "[ex_batch 0 36, ex_batch 36 72, ex_batch 72 108]"]
        AddOrMerge_spec [of "ex_batch 36 72" "[]" "[]"]
        AddOrMerge_spec [of "(ex_batch 36 72)\<lparr>blendMode' := BLEND_ADD\<rparr>" "[ex_batch 0 36]" "[]"]
  by (simp add: ex_batch_def Merge_def same_render_state_def)

section \<open>Properties of the quad operations\<close>

subsection \<open>The tiling loops: induction rules, termination, divergence\<close>

text \<open>Partial-correctness induction for the two loops, with the arguments curried.\<close>

lemmas tile_row_raw = tile_row.raw_induct
  [where xa = "((((((((((pa, x), y), width), tox), toy), texWidth), tileY), tileH), st), tileX)",
   unfolded prod.case, rotated, consumes 1, case_names step]
  for pa x y width tox toy texWidth tileY tileH st tileX

lemmas tile_rows_raw = tile_rows.raw_induct
  [where xa = "((((((((((pa, x), y), width), height), tox), toy), texWidth), texHeight), st), tileY)",
   unfolded prod.case, rotated, consumes 1, case_names step]
  for pa x y width height tox toy texWidth texHeight st tileY

lemma AddQuad_zero_alpha: "zero_alpha (fst st) \<Longrightarrow> AddQuad pa st x y w h tox toy tw th = Inr st"
  by (simp add: AddQuad_def zero_alpha_def)

lemma AddQuad_live:
  assumes "live_batch (fst st)"
  shows "\<exists>st'. AddQuad pa st x y w h tox toy tw th = Inr st' \<and> live_batch (fst st')"
  using assms
  by (cases st) (auto simp: AddQuad_def Let_def append_quad_def live_batch_def)

text \<open>With a texture-region size of at least 1 the tile origin advances by at least 1 in
  every iteration, so both loops return.\<close>

lemma tile_row_returns:
  assumes "1 \<le> texWidth"
  shows "\<exists>r. tile_row pa x y width tox toy texWidth tileY tileH st tileX = Some r"
proof (induction "nat (width - tileX)" arbitrary: tileX st rule: less_induct)
  case less
  show ?case
  proof (cases "tileX < width")
    case False
    then show ?thesis by (subst tile_row.simps) simp
  next
    case True
    let ?tileW = "min (width - tileX) texWidth"
    have dec: "nat (width - (tileX + ?tileW)) < nat (width - tileX)"
      using True assms by simp
    show ?thesis
    proof (cases "AddQuad pa st (real_of_int (x + tileX)) (real_of_int (y + tileY))
                    (real_of_int ?tileW) (real_of_int tileH) tox toy ?tileW tileH")
      case (Inl f)
      then show ?thesis using True by (subst tile_row.simps) (simp add: Let_def)
    next
      case (Inr st')
      from less [OF dec, of st'] obtain r where
        "tile_row pa x y width tox toy texWidth tileY tileH st' (tileX + ?tileW) = Some r" ..
      then show ?thesis using True Inr by (subst tile_row.simps) (simp add: Let_def)
    qed
  qed
qed

lemma tile_rows_returns:
  assumes "1 \<le> texWidth" "1 \<le> texHeight"
  shows "\<exists>r. tile_rows pa x y width height tox toy texWidth texHeight st tileY = Some r"
proof (induction "nat (height - tileY)" arbitrary: tileY st rule: less_induct)
  case less
  show ?case
  proof (cases "tileY < height")
    case False
    then show ?thesis by (subst tile_rows.simps) simp
  next
    case True
    let ?tileH = "min (height - tileY) texHeight"
    have dec: "nat (height - (tileY + ?tileH)) < nat (height - tileY)"
      using True assms by simp
    obtain r1 where r1: "tile_row pa x y width tox toy texWidth tileY ?tileH st 0 = Some r1"
      using tile_row_returns [OF assms(1)] by blast
    show ?thesis
    proof (cases r1)
      case (Inl f)
      then show ?thesis using True r1 by (subst tile_rows.simps) (simp add: Let_def)
    next
      case (Inr st')
      from less [OF dec, of st'] obtain r where
        "tile_rows pa x y width height tox toy texWidth texHeight st' (tileY + ?tileH) = Some r" ..
      then show ?thesis using True Inr r1 by (subst tile_rows.simps) (simp add: Let_def)
    qed
  qed
qed

text \<open>On a batch with zero alpha and no gradient every inner call returns at once: whatever
  the loops return is the unchanged state.\<close>

lemma tile_row_zero_alpha:
  assumes "tile_row pa x y width tox toy texWidth tileY tileH st tileX = Some r"
  shows "zero_alpha (fst st) \<longrightarrow> r = Inr st"
  using assms
proof (induction rule: tile_row_raw)
  case (step tile_row pa x y width tox toy texWidth tileY tileH st tileX r)
  show ?case
  proof
    assume z: "zero_alpha (fst st)"
    show "r = Inr st"
    proof (cases "tileX < width")
      case False
      with step(2) show ?thesis by simp
    next
      case True
      with step(2) z
      have "tile_row pa x y width tox toy texWidth tileY tileH st
              (tileX + min (width - tileX) texWidth) = Some r"
        by (simp add: Let_def AddQuad_zero_alpha)
      from step(1) [OF this] z show ?thesis by simp
    qed
  qed
qed

lemma tile_rows_zero_alpha:
  assumes "tile_rows pa x y width height tox toy texWidth texHeight st tileY = Some r"
  shows "zero_alpha (fst st) \<longrightarrow> r = Inr st"
  using assms
proof (induction rule: tile_rows_raw)
  case (step tile_rows pa x y width height tox toy texWidth texHeight st tileY r)
  show ?case
  proof
    assume z: "zero_alpha (fst st)"
    show "r = Inr st"
    proof (cases "tileY < height")
      case False
      with step(2) show ?thesis by simp
    next
      case True
      let ?tileH = "min (height - tileY) texHeight"
      from step(2) True obtain r1 where
        r1: "tile_row pa x y width tox toy texWidth tileY ?tileH st 0 = Some r1"
        and rest: "(case r1 of Inl f \<Rightarrow> Some (Inl f)
                    | Inr st' \<Rightarrow> tile_rows pa x y width height tox toy texWidth texHeight st'
                                   (tileY + ?tileH)) = Some r"
        by (auto simp: Let_def bind_eq_Some_conv)
      from tile_row_zero_alpha [OF r1] z have "r1 = Inr st" by simp
      with rest have "tile_rows pa x y width height tox toy texWidth texHeight st
                        (tileY + ?tileH) = Some r" by simp
      from step(1) [OF this] z show ?thesis by simp
    qed
  qed
qed

text \<open>With a texture-region size of 0 the tile origin does not move: a loop entered on a
  live batch never returns.\<close>

lemma tile_row_live:
  assumes "tile_row pa x y width tox toy texWidth tileY tileH st tileX = Some r"
  shows "live_batch (fst st) \<longrightarrow> (\<exists>st'. r = Inr st' \<and> live_batch (fst st'))"
  using assms
proof (induction rule: tile_row_raw)
  case (step tile_row pa x y width tox toy texWidth tileY tileH st tileX r)
  show ?case
  proof
    assume l: "live_batch (fst st)"
    show "\<exists>st'. r = Inr st' \<and> live_batch (fst st')"
    proof (cases "tileX < width")
      case False
      with step(2) have "r = Inr st" by simp
      with l show ?thesis by blast
    next
      case True
      let ?tileW = "min (width - tileX) texWidth"
      obtain st' where st': "AddQuad pa st (real_of_int (x + tileX)) (real_of_int (y + tileY))
                (real_of_int ?tileW) (real_of_int tileH) tox toy ?tileW tileH = Inr st'"
         "live_batch (fst st')"
        using AddQuad_live [OF l] by blast
      with step(2) True
      have "tile_row pa x y width tox toy texWidth tileY tileH st' (tileX + ?tileW) = Some r"
        by (simp add: Let_def)
      from step(1) [OF this] st'(2) show ?thesis by simp
    qed
  qed
qed

lemma tile_row_stuck_aux:
  assumes "tile_row pa x y width tox toy texWidth tileY tileH st tileX = Some r"
  shows "\<not> (texWidth = 0 \<and> tileX < width \<and> live_batch (fst st))"
  using assms
proof (induction rule: tile_row_raw)
  case (step tile_row pa x y width tox toy texWidth tileY tileH st tileX r)
  show ?case
  proof
    assume a: "texWidth = 0 \<and> tileX < width \<and> live_batch (fst st)"
    then obtain st' where st': "AddQuad pa st (real_of_int (x + tileX)) (real_of_int (y + tileY))
                (real_of_int 0) (real_of_int tileH) tox toy 0 tileH = Inr st'" "live_batch (fst st')"
      using AddQuad_live by blast
    from a have "min (width - tileX) texWidth = 0" by simp
    with step(2) a st' have "tile_row pa x y width tox toy texWidth tileY tileH st' tileX = Some r"
      by (simp add: Let_def)
    from step(1) [OF this] a st' show False by simp
  qed
qed

lemma tile_row_stuck:
  assumes "texWidth = 0" "tileX < width" "live_batch (fst st)"
  shows "tile_row pa x y width tox toy texWidth tileY tileH st tileX = None"
  using tile_row_stuck_aux assms by (metis not_Some_eq)

lemma tile_rows_stuck_aux:
  assumes "tile_rows pa x y width height tox toy texWidth texHeight st tileY = Some r"
  shows "\<not> (texHeight = 0 \<and> tileY < height \<and> live_batch (fst st))"
  using assms
proof (induction rule: tile_rows_raw)
  case (step tile_rows pa x y width height tox toy texWidth texHeight st tileY r)
  show ?case
  proof
    assume a: "texHeight = 0 \<and> tileY < height \<and> live_batch (fst st)"
    then have tileH: "min (height - tileY) texHeight = 0" by simp
    from step(2) a tileH obtain r1 where
      r1: "tile_row pa x y width tox toy texWidth tileY 0 st 0 = Some r1"
      and rest: "(case r1 of Inl f \<Rightarrow> Some (Inl f)
                  | Inr st' \<Rightarrow> tile_rows pa x y width height tox toy texWidth texHeight st' tileY)
                 = Some r"
      by (auto simp: Let_def bind_eq_Some_conv)
    from tile_row_live [OF r1] a obtain st' where st': "r1 = Inr st'" "live_batch (fst st')"
      by blast
    with rest have "tile_rows pa x y width height tox toy texWidth texHeight st' tileY = Some r"
      by simp
    from step(1) [OF this] a st' show False by simp
  qed
qed

lemma tile_rows_stuck_height:
  assumes "texHeight = 0" "tileY < height" "live_batch (fst st)"
  shows "tile_rows pa x y width height tox toy texWidth texHeight st tileY = None"
  using tile_rows_stuck_aux assms by (metis not_Some_eq)

lemma tile_rows_stuck_width:
  assumes "texWidth = 0" "0 < width" "tileY < height" "live_batch (fst st)"
  shows "tile_rows pa x y width height tox toy texWidth texHeight st tileY = None"
  using assms by (subst tile_rows.simps) (simp add: Let_def tile_row_stuck)

subsection \<open>What the loops emit\<close>

lemma rect_slots_vertexEnd:
  "rect_slots pa (b\<lparr>vertexEnd' := k\<rparr>) e = rect_slots pa b e"
  by (intro ext) (simp add: rect_slots_def corner_colors_def)

lemma length_rect_slots: "length (rect_slots pa b e x y w h tox toy tw th) = 36"
  by (simp add: rect_slots_def vertex_def Let_def split: prod.splits)

lemma length_tile_slots: "length (tile_slots pa b e x y tox toy t) = 36"
  by (simp add: tile_slots_def length_rect_slots split: prod.splits)

lemma tile_slots_vertexEnd:
  "tile_slots pa (b\<lparr>vertexEnd' := k\<rparr>) e = tile_slots pa b e"
  by (intro ext) (simp add: tile_slots_def rect_slots_vertexEnd)

lemma AddQuad_emits:
  assumes "\<not> zero_alpha (fst st)" "element' (fst st) = Some e" "vertexData' (fst st) = Some p"
  shows "AddQuad pa st x y w h tox toy tw th
         = Inr (append_quad p st (rect_slots pa (fst st) e x y w h tox toy tw th))"
  using assms by (auto simp: AddQuad_def zero_alpha_def Let_def)

lemma fst_append_quad:
  "fst (append_quad p st q) = (fst st)\<lparr>vertexEnd' := length (snd st p) + 36\<rparr>"
  by (cases st) (simp add: append_quad_def UI_VERTEX_SIZE_def)

lemma length_concat_quads:
  "\<forall>q\<in>set qs. length q = 36 \<Longrightarrow> length (concat qs) = 36 * length qs"
  by (induction qs) simp_all

lemma foldl_append_quad:
  assumes "\<forall>q\<in>set qs. length q = 36"
  shows "foldl (append_quad p) (b, vs) qs
         = ((if qs = [] then b else b\<lparr>vertexEnd' := length (vs p) + 36 * length qs\<rparr>),
            vs(p := vs p @ concat qs))"
  using assms
proof (induction qs rule: rev_induct)
  case Nil
  show ?case by simp
next
  case (snoc q qs)
  let ?b = "if qs = [] then b else b\<lparr>vertexEnd' := length (vs p) + 36 * length qs\<rparr>"
  from snoc.prems have len: "length (concat qs) = 36 * length qs"
    by (intro length_concat_quads) simp
  from snoc.prems have "\<forall>q\<in>set qs. length q = 36" by simp
  from snoc.IH [OF this]
  have IH: "foldl (append_quad p) (b, vs) qs = (?b, vs(p := vs p @ concat qs))"
    by (simp add: fun_upd_def)
  have "foldl (append_quad p) (b, vs) (qs @ [q])
        = append_quad p (foldl (append_quad p) (b, vs) qs) q"
    by simp
  also have "\<dots> = append_quad p (?b, vs(p := vs p @ concat qs)) q"
    by (simp only: IH)
  also have "\<dots> = (b\<lparr>vertexEnd' := length (vs p) + 36 * length (qs @ [q])\<rparr>,
                   vs(p := vs p @ concat (qs @ [q])))"
    by (simp add: append_quad_def UI_VERTEX_SIZE_def len)
  finally show ?case by (simp add: fun_upd_def)
qed

lemma less_ceiling_cols:
  assumes "1 \<le> tw"
  shows "int c * tw < W \<longleftrightarrow> c < nat \<lceil>real_of_int W / real_of_int tw\<rceil>"
proof -
  have "c < nat \<lceil>real_of_int W / real_of_int tw\<rceil> \<longleftrightarrow> int c < \<lceil>real_of_int W / real_of_int tw\<rceil>"
    by linarith
  also have "\<dots> \<longleftrightarrow> real_of_int (int c) < real_of_int W / real_of_int tw"
    by (rule less_ceiling_iff)
  also have "\<dots> \<longleftrightarrow> real_of_int (int c) * real_of_int tw < real_of_int W"
    using assms by (simp add: pos_less_divide_eq)
  also have "\<dots> \<longleftrightarrow> int c * tw < W"
    by (metis of_int_less_iff of_int_mult)
  finally show ?thesis by simp
qed

lemma tile_row_emits:
  assumes "1 \<le> tw" "n = nat \<lceil>real_of_int W / real_of_int tw\<rceil>"
  shows "c \<le> n \<Longrightarrow> \<not> zero_alpha (fst st) \<Longrightarrow> element' (fst st) = Some e \<Longrightarrow>
         vertexData' (fst st) = Some p \<Longrightarrow>
         tile_row pa x y W tox toy tw tileY tileH st (min (int c * tw) W)
         = Some (Inr (foldl (append_quad p) st
             (map (\<lambda>k. tile_slots pa (fst st) e x y tox toy
                     (int k * tw, tileY, min (W - int k * tw) tw, tileH)) [c..<n])))"
proof (induction "n - c" arbitrary: c st)
  case 0
  then have "c = n" by simp
  then have "\<not> int c * tw < W" using less_ceiling_cols [OF assms(1), of c W] assms(2) by simp
  then have "\<not> min (int c * tw) W < W" by simp
  then show ?case using \<open>c = n\<close> by (subst tile_row.simps) simp
next
  case (Suc d)
  then have c: "c < n" by simp
  then have lt: "int c * tw < W" using less_ceiling_cols [OF assms(1), of c W] assms(2) by simp
  let ?tileW = "min (W - int c * tw) tw"
  let ?q = "tile_slots pa (fst st) e x y tox toy (int c * tw, tileY, ?tileW, tileH)"
  let ?st' = "append_quad p st ?q"
  have add: "AddQuad pa st (real_of_int (x + int c * tw)) (real_of_int (y + tileY))
               (real_of_int ?tileW) (real_of_int tileH) tox toy ?tileW tileH = Inr ?st'"
    using AddQuad_emits [OF Suc.prems(2,3,4)] by (simp add: tile_slots_def)
  have next_x: "int c * tw + ?tileW = min (int (Suc c) * tw) W"
    by (simp add: algebra_simps min_def)
  have fst': "fst ?st' = (fst st)\<lparr>vertexEnd' := length (snd st p) + 36\<rparr>"
    by (rule fst_append_quad)
  have IH: "tile_row pa x y W tox toy tw tileY tileH ?st' (min (int (Suc c) * tw) W)
            = Some (Inr (foldl (append_quad p) ?st'
                (map (\<lambda>k. tile_slots pa (fst ?st') e x y tox toy
                        (int k * tw, tileY, min (W - int k * tw) tw, tileH)) [Suc c..<n])))"
    using Suc.hyps(2) c Suc.prems(2,3,4)
    by (intro Suc.hyps(1)) (simp_all add: fst' zero_alpha_def)
  have "tile_row pa x y W tox toy tw tileY tileH st (int c * tw)
        = tile_row pa x y W tox toy tw tileY tileH ?st' (int c * tw + ?tileW)"
    using lt add by (subst tile_row.simps) (simp add: Let_def)
  also have "\<dots> = Some (Inr (foldl (append_quad p) ?st'
                (map (\<lambda>k. tile_slots pa (fst st) e x y tox toy
                        (int k * tw, tileY, min (W - int k * tw) tw, tileH)) [Suc c..<n])))"
    unfolding next_x IH by (simp add: fst' tile_slots_vertexEnd)
  finally show ?case using c lt by (simp add: upt_conv_Cons min_def)
qed

lemma foldl_append_quad_fst:
  assumes "\<forall>q\<in>set qs. length q = 36"
  shows "\<exists>k. fst (foldl (append_quad p) st qs) = (fst st)\<lparr>vertexEnd' := k\<rparr>"
proof (cases st)
  case (Pair b vs)
  show ?thesis
  proof (cases "qs = []")
    case True
    have "b = b\<lparr>vertexEnd' := vertexEnd' b\<rparr>" by simp
    then have "fst (foldl (append_quad p) st qs) = (fst st)\<lparr>vertexEnd' := vertexEnd' b\<rparr>"
      using True Pair by simp
    then show ?thesis ..
  next
    case False
    then have "fst (foldl (append_quad p) st qs)
               = (fst st)\<lparr>vertexEnd' := length (vs p) + 36 * length qs\<rparr>"
      unfolding Pair foldl_append_quad [OF assms] by simp
    then show ?thesis ..
  qed
qed

lemma tile_rows_emits:
  assumes "1 \<le> tw" "1 \<le> th" "1 \<le> W"
    and "m = nat \<lceil>real_of_int H / real_of_int th\<rceil>"
  shows "r \<le> m \<Longrightarrow> \<not> zero_alpha (fst st) \<Longrightarrow> element' (fst st) = Some e \<Longrightarrow>
         vertexData' (fst st) = Some p \<Longrightarrow>
         tile_rows pa x y W H tox toy tw th st (min (int r * th) H)
         = Some (Inr (foldl (append_quad p) st
             (concat (map (\<lambda>j. map (\<lambda>t. tile_slots pa (fst st) e x y tox toy
                                     (fst t, int j * th, snd t, min (H - int j * th) th))
                                (tile_columns W tw)) [r..<m]))))"
proof (induction "m - r" arbitrary: r st)
  case 0
  then have "r = m" by simp
  then have "\<not> int r * th < H" using less_ceiling_cols [OF assms(2), of r H] assms(4) by simp
  then have "\<not> min (int r * th) H < H" by simp
  then show ?case using \<open>r = m\<close> by (subst tile_rows.simps) simp
next
  case (Suc d)
  then have r: "r < m" by simp
  then have lt: "int r * th < H" using less_ceiling_cols [OF assms(2), of r H] assms(4) by simp
  let ?tileH = "min (H - int r * th) th"
  let ?row = "map (\<lambda>t. tile_slots pa (fst st) e x y tox toy (fst t, int r * th, snd t, ?tileH))
                (tile_columns W tw)"
  let ?st' = "foldl (append_quad p) st ?row"
  have row: "tile_row pa x y W tox toy tw (int r * th) ?tileH st 0 = Some (Inr ?st')"
    using tile_row_emits [OF assms(1) refl, of 0 W st e p pa x y tox toy "int r * th" ?tileH]
      Suc.prems(2,3,4) assms(3)
    by (simp add: tile_columns_def comp_def)
  have len: "\<forall>q\<in>set ?row. length q = 36"
    by (simp add: length_tile_slots)
  obtain k where fst': "fst ?st' = (fst st)\<lparr>vertexEnd' := k\<rparr>"
    using foldl_append_quad_fst [OF len] by blast
  have next_y: "int r * th + ?tileH = min (int (Suc r) * th) H"
    by (simp add: algebra_simps min_def)
  have IH: "tile_rows pa x y W H tox toy tw th ?st' (min (int (Suc r) * th) H)
            = Some (Inr (foldl (append_quad p) ?st'
               (concat (map (\<lambda>j. map (\<lambda>t. tile_slots pa (fst ?st') e x y tox toy
                                     (fst t, int j * th, snd t, min (H - int j * th) th))
                                (tile_columns W tw)) [Suc r..<m]))))"
    using Suc.hyps(2) r Suc.prems(2,3,4)
    by (intro Suc.hyps(1)) (simp_all add: fst' zero_alpha_def)
  have "tile_rows pa x y W H tox toy tw th st (int r * th)
        = tile_rows pa x y W H tox toy tw th ?st' (int r * th + ?tileH)"
    using lt row by (subst tile_rows.simps) (simp add: Let_def)
  also have "\<dots> = Some (Inr (foldl (append_quad p) ?st'
               (concat (map (\<lambda>j. map (\<lambda>t. tile_slots pa (fst st) e x y tox toy
                                     (fst t, int j * th, snd t, min (H - int j * th) th))
                                (tile_columns W tw)) [Suc r..<m]))))"
    unfolding next_y IH by (simp add: fst' tile_slots_vertexEnd)
  finally show ?case using r lt by (simp add: upt_conv_Cons min_def)
qed

lemma tile_columns_spans:
  assumes "1 \<le> tex"
  shows "tile_columns extent tex = tile_spans extent tex"
proof -
  let ?n = "nat \<lceil>real_of_int extent / real_of_int tex\<rceil>"
  have "min (extent - int k * tex) tex = (if Suc k < ?n then tex else extent - int k * tex)" for k
  proof -
    have "int (Suc k) * tex = int k * tex + tex" by (simp add: algebra_simps)
    with less_ceiling_cols [OF assms, of "Suc k" extent]
    have "int k * tex + tex < extent \<longleftrightarrow> Suc k < ?n" by simp
    then show ?thesis by (cases "Suc k < ?n") simp_all
  qed
  then show ?thesis by (simp add: tile_columns_def tile_spans_def Let_def)
qed

lemma length_tile_grid:
  "length (tile_grid W H tw th)
   = nat \<lceil>real_of_int W / real_of_int tw\<rceil> * nat \<lceil>real_of_int H / real_of_int th\<rceil>"
proof -
  have "length (concat (map (\<lambda>t. map (f t) xs) ys)) = length xs * length ys"
    for f :: "'a \<Rightarrow> 'b \<Rightarrow> 'c" and xs ys
    by (induction ys) simp_all
  from this [of "\<lambda>(oy, h) (ox, w). (ox, oy, w, h)" "tile_spans W tw" "tile_spans H th"]
  show ?thesis
    by (simp add: tile_grid_def tile_spans_def Let_def case_prod_unfold)
qed

lemma tile_rows_grid:
  assumes "1 \<le> W" "1 \<le> tw" "1 \<le> th" "1 \<le> H"
    and "\<not> zero_alpha b" "element' b = Some e" "vertexData' b = Some p"
  shows "tile_rows pa x y W H tox toy tw th (b, vs) 0
         = Some (Inr (foldl (append_quad p) (b, vs)
                        (map (tile_slots pa b e x y tox toy) (tile_grid W H tw th))))"
proof -
  have "tile_rows pa x y W H tox toy tw th (b, vs) (min (int 0 * th) H)
         = Some (Inr (foldl (append_quad p) (b, vs)
             (concat (map (\<lambda>j. map (\<lambda>t. tile_slots pa (fst (b, vs)) e x y tox toy
                                     (fst t, int j * th, snd t, min (H - int j * th) th))
                                (tile_columns W tw))
                        [0..<nat \<lceil>real_of_int H / real_of_int th\<rceil>]))))"
    using assms by (intro tile_rows_emits) simp_all
  moreover have "min (int 0 * th) H = 0" using assms(4) by simp
  moreover have "concat (map (\<lambda>j. map (\<lambda>t. tile_slots pa b e x y tox toy
                                     (fst t, int j * th, snd t, min (H - int j * th) th))
                                (tile_columns W tw))
                        [0..<nat \<lceil>real_of_int H / real_of_int th\<rceil>])
                 = map (tile_slots pa b e x y tox toy) (tile_grid W H tw th)"
    unfolding tile_grid_def tile_columns_spans [OF assms(2), symmetric]
      tile_columns_spans [OF assms(3), symmetric]
    by (simp add: tile_columns_def map_concat comp_def case_prod_unfold)
  ultimately show ?thesis by simp
qed

subsection \<open>Zero alpha\<close>

lemma SetDefaultColor_consistent: "batch_consistent (SetDefaultColor b)"
  by (simp add: batch_consistent_def SetDefaultColor_def split: option.splits)

lemma SetColor_consistent: "batch_consistent (SetColor b c overrideAlpha)"
  by (simp add: batch_consistent_def SetColor_def split: option.splits)

lemma UIBatch_new_consistent:
  "UIBatch_new texSize vs element blendMode scissor texture vertexData = Inr b
   \<Longrightarrow> batch_consistent b"
  by (auto simp: UIBatch_new_def batch_consistent_def SetDefaultColor_def split: option.splits)

text \<open>
  C7 as stated fails for the free-point \<open>AddQuad\<close>: on a batch without gradient whose
  colour has alpha 0, over an element without gradient, it appends the six vertices (36
  slots) of a quad and moves the end of the vertex range from 0 to 36.
\<close>

theorem AddQuad_free_zero_alpha_counterexample:
  "color' ex_transparent_batch AND 0xff000000 = 0
   \<and> \<not> useGradient' ex_transparent_batch
   \<and> \<not> hasColorGradient ex_transparent_element
   \<and> element' ex_transparent_batch = Some ex_transparent_element
   \<and> ex_vstore 0 = []
   \<and> length (snd (projr (AddQuad_free (0, 0, 0) (ex_transparent_batch, ex_vstore) ex_identity
          (0, 0) (10, 0) (10, 10) (0, 10) (0, 0) (1, 0) (1, 1) (0, 1))) 0) = 36
   \<and> vertexEnd' ex_transparent_batch = 0
   \<and> vertexEnd' (fst (projr (AddQuad_free (0, 0, 0) (ex_transparent_batch, ex_vstore) ex_identity
          (0, 0) (10, 0) (10, 10) (0, 10) (0, 0) (1, 0) (1, 1) (0, 1)))) = 36"
  by (simp add: AddQuad_free_def ex_transparent_batch_def ex_transparent_element_def
        ex_element_def ex_batch_def ex_vstore_def append_quad_def free_slots_def vertex_def
        UI_VERTEX_SIZE_def Let_def)

text \<open>
  C7, amended: for the rectangle, the transformed-rectangle and the tiled \<open>AddQuad\<close>, on a
  batch whose colour has a zero alpha byte while its element has no colour gradient (and the
  batch's gradient flag is the element's or cleared by \<open>SetColor\<close>), no vertex is appended:
  the batch and the vertex buffer are unchanged. The first two return so on every input; the
  tiled one on a non-null element whenever it is not tiling or the texture-region size is at
  least 1 on both axes, and whatever it returns otherwise is the unchanged state. The
  free-point variants are not covered.
\<close>

theorem AddQuad_zero_alpha_no_vertices:
  assumes "batch_consistent b"
    and "\<forall>e. element' b = Some e \<longrightarrow> \<not> hasColorGradient e"
    and "color' b AND 0xff000000 = 0"
  shows "AddQuad pa (b, vs) fx fy fw fh tox toy tw th = Inr (b, vs)
       \<and> AddQuad_transform pa (b, vs) m x y w h tox toy tw th = Inr (b, vs)
       \<and> (element' b \<noteq> None \<longrightarrow>
            AddQuad_tiled pa (b, vs) x y w h tox toy tw th False = Some (Inr (b, vs)))
       \<and> (element' b \<noteq> None \<and> 1 \<le> tw \<and> 1 \<le> th \<longrightarrow>
            AddQuad_tiled pa (b, vs) x y w h tox toy tw th True = Some (Inr (b, vs)))
       \<and> (\<forall>r. AddQuad_tiled pa (b, vs) x y w h tox toy tw th tiled = Some (Inr r) \<longrightarrow> r = (b, vs))"
proof -
  from assms have z: "zero_alpha (fst (b, vs))"
    by (auto simp: zero_alpha_def batch_consistent_def)
  have plain: "AddQuad pa (b, vs) fx fy fw fh tox toy tw th = Inr (b, vs)" for fx fy fw fh
    by (rule AddQuad_zero_alpha [OF z])
  have transform: "AddQuad_transform pa (b, vs) m x y w h tox toy tw th = Inr (b, vs)"
    using z by (simp add: AddQuad_transform_def zero_alpha_def)
  have partial: "r = (b, vs)"
    if "AddQuad_tiled pa (b, vs) x y w h tox toy tw th tiled = Some (Inr r)" for r tiled
  proof (cases "element' b")
    case None
    with that show ?thesis by (simp add: AddQuad_tiled_def)
  next
    case (Some e)
    show ?thesis
    proof (cases "\<not> (hasColorGradient e \<or> derivedColorUInt e AND 0xff000000 \<noteq> 0) \<or> \<not> tiled")
      case True
      with that Some plain show ?thesis by (auto simp: AddQuad_tiled_def split: if_splits)
    next
      case False
      with that Some have "tile_rows pa x y w h tox toy tw th (b, vs) 0 = Some (Inr r)"
        by (auto simp: AddQuad_tiled_def split: if_splits)
      from tile_rows_zero_alpha [OF this] z show ?thesis by simp
    qed
  qed
  have untiled: "AddQuad_tiled pa (b, vs) x y w h tox toy tw th False = Some (Inr (b, vs))"
    if "element' b \<noteq> None"
    using that plain by (auto simp: AddQuad_tiled_def)
  have tiled: "AddQuad_tiled pa (b, vs) x y w h tox toy tw th True = Some (Inr (b, vs))"
    if "element' b \<noteq> None \<and> 1 \<le> tw \<and> 1 \<le> th"
  proof -
    from that obtain e where e: "element' b = Some e" by auto
    show ?thesis
    proof (cases "hasColorGradient e \<or> derivedColorUInt e AND 0xff000000 \<noteq> 0")
      case False
      with e show ?thesis by (simp add: AddQuad_tiled_def)
    next
      case True
      from that obtain r where r: "tile_rows pa x y w h tox toy tw th (b, vs) 0 = Some r"
        using tile_rows_returns by blast
      from tile_rows_zero_alpha [OF r] z have "r = Inr (b, vs)" by simp
      with r e True show ?thesis by (simp add: AddQuad_tiled_def)
    qed
  qed
  from plain transform partial untiled tiled show ?thesis by blast
qed

theorem AddQuad_zero_alpha_no_vertices_witness:
  "AddQuad (0, 0, 0) (ex_transparent_batch, ex_vstore) 0 0 10 10 0 0 0 0
     = Inr (ex_transparent_batch, ex_vstore)
   \<and> AddQuad_transform (0, 0, 0) (ex_transparent_batch, ex_vstore) ex_identity 0 0 10 10 0 0 0 0
     = Inr (ex_transparent_batch, ex_vstore)
   \<and> AddQuad_tiled (0, 0, 0) (ex_transparent_batch, ex_vstore) 0 0 10 10 0 0 4 4 False
     = Some (Inr (ex_transparent_batch, ex_vstore))
   \<and> AddQuad_tiled (0, 0, 0) (ex_transparent_batch, ex_vstore) 0 0 10 10 0 0 4 4 True
     = Some (Inr (ex_transparent_batch, ex_vstore))"
  using AddQuad_zero_alpha_no_vertices
    [of ex_transparent_batch "(0, 0, 0)" ex_vstore 0 0 10 10 0 0 0 0 ex_identity 0 0 10 10 True]
    AddQuad_zero_alpha_no_vertices
    [of ex_transparent_batch "(0, 0, 0)" ex_vstore 0 0 10 10 0 0 4 4 ex_identity 0 0 10 10 True]
  by (simp add: batch_consistent_def ex_transparent_batch_def ex_transparent_element_def
        ex_element_def ex_batch_def)

subsection \<open>The tile grid\<close>

text \<open>
  C8 as stated fails when the quad is suppressed: over an element whose derived colour has
  alpha 0 and no gradient, the tiled \<open>AddQuad\<close> of a 5x3 region with 2x2 tiles returns
  with the buffer still empty, not with \<open>\<lceil>5/2\<rceil> * \<lceil>3/2\<rceil> = 6\<close> sub-quads.
\<close>

theorem AddQuad_tiled_zero_alpha_counterexample:
  "AddQuad_tiled (0, 0, 0) (ex_transparent_batch, ex_vstore) 0 0 5 3 0 0 2 2 True
     = Some (Inr (ex_transparent_batch, ex_vstore))
   \<and> ex_vstore 0 = []
   \<and> nat \<lceil>real_of_int 5 / real_of_int 2\<rceil> * nat \<lceil>real_of_int 3 / real_of_int 2\<rceil> = 6"
  by (simp add: AddQuad_tiled_def ex_transparent_batch_def ex_transparent_element_def
        ex_element_def ex_vstore_def)

text \<open>
  C8, amended: with tiling requested, on a batch with a non-null element and buffer that is
  not suppressed by the zero-alpha rule (the element has a gradient or a non-zero derived
  alpha, and the batch uses the gradient or has a non-zero alpha), \<open>AddQuad\<close> over a
  region of width \<open>W \<ge> 1\<close> and height \<open>H \<ge> 1\<close> with a texture-region size
  \<open>tw \<ge> 1\<close>, \<open>th \<ge> 1\<close> returns and appends exactly the sub-quads of \<open>tile_grid\<close>,
  in its order: \<open>\<lceil>W/tw\<rceil> * \<lceil>H/th\<rceil>\<close> of them, row-major from the region origin, each
  of size \<open>(tw, th)\<close> except those of the final row or column, which are clipped to the
  remaining size; each sub-quad is the quad at its offset with its own size as texture size.
\<close>

theorem AddQuad_tiled_grid:
  assumes "1 \<le> W" "1 \<le> H" "1 \<le> tw" "1 \<le> th"
    and "element' b = Some e" "vertexData' b = Some p"
    and "hasColorGradient e \<or> derivedColorUInt e AND 0xff000000 \<noteq> 0"
    and "useGradient' b \<or> color' b AND 0xff000000 \<noteq> 0"
  shows "AddQuad_tiled pa (b, vs) x y W H tox toy tw th True
         = Some (Inr (b\<lparr>vertexEnd' := length (vs p) + 36 * length (tile_grid W H tw th)\<rparr>,
                      vs(p := vs p @ concat (map (tile_slots pa b e x y tox toy)
                                              (tile_grid W H tw th)))))
         \<and> length (tile_grid W H tw th)
           = nat \<lceil>real_of_int W / real_of_int tw\<rceil> * nat \<lceil>real_of_int H / real_of_int th\<rceil>"
proof -
  let ?qs = "map (tile_slots pa b e x y tox toy) (tile_grid W H tw th)"
  have vis: "\<not> zero_alpha b" using assms(8) by (auto simp: zero_alpha_def)
  have len: "length (tile_grid W H tw th)
           = nat \<lceil>real_of_int W / real_of_int tw\<rceil> * nat \<lceil>real_of_int H / real_of_int th\<rceil>"
    by (rule length_tile_grid)
  have "0 < real_of_int W / real_of_int tw" "0 < real_of_int H / real_of_int th"
    using assms(1-4) by simp_all
  then have "0 < nat \<lceil>real_of_int W / real_of_int tw\<rceil>" "0 < nat \<lceil>real_of_int H / real_of_int th\<rceil>"
    by linarith+
  with len have ne: "?qs \<noteq> []" by auto
  have "AddQuad_tiled pa (b, vs) x y W H tox toy tw th True
        = tile_rows pa x y W H tox toy tw th (b, vs) 0"
    using assms(5,7) by (simp add: AddQuad_tiled_def)
  also have "\<dots> = Some (Inr (foldl (append_quad p) (b, vs) ?qs))"
    using assms(1-4) vis assms(5,6) by (intro tile_rows_grid) simp_all
  also have "foldl (append_quad p) (b, vs) ?qs
             = (b\<lparr>vertexEnd' := length (vs p) + 36 * length ?qs\<rparr>, vs(p := vs p @ concat ?qs))"
    using ne by (subst foldl_append_quad) (simp_all add: length_tile_slots)
  finally show ?thesis using len by simp
qed

theorem AddQuad_tiled_grid_witness:
  "AddQuad_tiled (0, 0, 0) (ex_batch 0 0, ex_vstore) 0 0 5 3 0 0 2 2 True
   = Some (Inr ((ex_batch 0 0)\<lparr>vertexEnd' := 216\<rparr>,
                ex_vstore(0 := concat (map (tile_slots (0, 0, 0) (ex_batch 0 0) ex_element 0 0 0 0)
                   [(0, 0, 2, 2), (2, 0, 2, 2), (4, 0, 1, 2),
                    (0, 2, 2, 1), (2, 2, 2, 1), (4, 2, 1, 1)]))))"
proof -
  have grid: "tile_grid 5 3 2 2 = [(0, 0, 2, 2), (2, 0, 2, 2), (4, 0, 1, 2),
                    (0, 2, 2, 1), (2, 2, 2, 1), (4, 2, 1, 1)]"
    by (simp add: tile_grid_def tile_spans_def Let_def upt_rec)
  show ?thesis
    using AddQuad_tiled_grid [of 5 3 2 2 "ex_batch 0 0" ex_element 0 "(0, 0, 0)" ex_vstore 0 0 0 0]
    by (simp add: grid ex_batch_def ex_element_def ex_vstore_def)
qed

subsection \<open>Termination of the tiled variant\<close>

lemma and_then_None: "and_then None f = None"
  by (simp add: and_then_def)

lemma and_then_Inr: "and_then (Some (Inr st)) f = f st"
  by (simp add: and_then_def)

lemma AddQuad_keeps:
  assumes "element' (fst st) = Some e" "vertexData' (fst st) = Some p"
  shows "\<exists>st'. AddQuad pa st x y w h tox toy tw th = Inr st'
              \<and> element' (fst st') = Some e \<and> vertexData' (fst st') = Some p"
  using assms by (cases st) (auto simp: AddQuad_def Let_def append_quad_def)

lemma GetBatches_top_stuck:
  assumes "element' (fst st) = Some e" "vertexData' (fst st) = Some p"
    and "hasColorGradient e \<or> derivedColorUInt e AND 0xff000000 \<noteq> 0"
    and "bi_tiled self" "0 < rtop (bi_border self)" "0 < fst innerSize" "fst innerUvSize = 0"
  shows "GetBatches_top pa self x innerSize uvBorder innerUvSize uvTopLeft st = None"
proof -
  let ?border = "bi_border self"
  obtain st' where st':
    "call_if (rleft ?border \<noteq> 0)
       (AddQuad_ints pa x 0 (rleft ?border) (rtop ?border)
          (fst uvTopLeft) (snd uvTopLeft) (rleft uvBorder) (rtop uvBorder)) st = Some (Inr st')"
    "element' (fst st') = Some e" "vertexData' (fst st') = Some p"
    using AddQuad_keeps [OF assms(1,2)] assms(1,2)
    by (cases "rleft ?border \<noteq> 0") (fastforce simp: call_if_def AddQuad_ints_def)+
  have "AddQuad_tiled pa st' (x + rleft ?border) 0 (fst innerSize) (rtop ?border)
          (fst uvTopLeft + rleft uvBorder) (snd uvTopLeft) (fst innerUvSize) (rtop uvBorder)
          (bi_tiled self) = None"
    using st'(2,3) assms(3-7)
    by (simp add: AddQuad_tiled_def tile_rows_stuck_width live_batch_def)
  then have "and_then (Some (Inr st'))
          (call_if (fst innerSize \<noteq> 0)
             (\<lambda>st. AddQuad_tiled pa st (x + rleft ?border) 0 (fst innerSize) (rtop ?border)
                     (fst uvTopLeft + rleft uvBorder) (snd uvTopLeft)
                     (fst innerUvSize) (rtop uvBorder) (bi_tiled self))) = None"
    using assms(6) by (simp add: and_then_Inr call_if_def)
  then show ?thesis
    unfolding GetBatches_top_def Let_def st'(1) by (simp only: and_then_None)
qed

lemma BorderImage_GetBatches_stuck:
  assumes "hasColorGradient (bi_element self)
           \<or> derivedColorUInt (bi_element self) AND 0xff000000 \<noteq> 0"
    and "bi_tiled self" "0 < rtop (bi_border self)"
    and "rleft (bi_border self) + rright (bi_border self)
         < fst (elemSize (bi_element self)) - bi_indentWidth self"
    and "bi_imageBorder self = IntRect_ZERO"
    and "rright (bi_imageRect self) - rleft (bi_imageRect self)
         \<le> rleft (bi_border self) + rright (bi_border self)"
  shows "BorderImage_GetBatches pa texSize self batches vs vertexData currentScissor offset = None"
proof -
  have top: "GetBatches_top pa self x innerSize uvBorder innerUvSize uvTopLeft (b, vs) = None"
    if "element' b = Some (bi_element self)" "vertexData' b = Some vertexData"
       "0 < fst innerSize" "fst innerUvSize = 0"
    for b x innerSize uvBorder innerUvSize uvTopLeft
    using that assms(1-3) by (intro GetBatches_top_stuck) simp_all
  show ?thesis
    using assms(3-6)
    by (simp add: BorderImage_GetBatches_def UIBatch_new_def Let_def call_if_def
          and_then_None top SetDefaultColor_def)
qed

text \<open>
  C10: the tiled \<open>AddQuad\<close> returns on every call with a texture-region size of at least
  1 on each axis. The precondition is needed: once past its alpha gate on a batch with a
  buffer, it never returns when the texture-region height is 0 and the region height is
  positive, nor when the texture-region width is 0 and the region is positive on both axes
  (so that the row loop is entered). \<open>BorderImage::GetBatches\<close> reaches this: a tiled,
  visible border image with a top border, a positive inner width and an image rect no wider
  than its left and right borders passes a zero inner texture-region width and does not
  return.
\<close>

theorem tiled_loop_termination:
  "(1 \<le> texWidth \<and> 1 \<le> texHeight \<longrightarrow>
      (\<exists>r. AddQuad_tiled pa st x y width height tox toy texWidth texHeight tiled = Some r))
   \<and> (element' (fst st) = Some e \<and> (hasColorGradient e \<or> derivedColorUInt e AND 0xff000000 \<noteq> 0)
        \<and> vertexData' (fst st) \<noteq> None \<and> texHeight = 0 \<and> 0 < height \<longrightarrow>
      AddQuad_tiled pa st x y width height tox toy texWidth texHeight True = None)
   \<and> (element' (fst st) = Some e \<and> (hasColorGradient e \<or> derivedColorUInt e AND 0xff000000 \<noteq> 0)
        \<and> vertexData' (fst st) \<noteq> None \<and> texWidth = 0 \<and> 0 < width \<and> 0 < height \<longrightarrow>
      AddQuad_tiled pa st x y width height tox toy texWidth texHeight True = None)
   \<and> ((hasColorGradient (bi_element self)
         \<or> derivedColorUInt (bi_element self) AND 0xff000000 \<noteq> 0)
        \<and> bi_tiled self \<and> 0 < rtop (bi_border self)
        \<and> rleft (bi_border self) + rright (bi_border self)
            < fst (elemSize (bi_element self)) - bi_indentWidth self
        \<and> bi_imageBorder self = IntRect_ZERO
        \<and> rright (bi_imageRect self) - rleft (bi_imageRect self)
            \<le> rleft (bi_border self) + rright (bi_border self) \<longrightarrow>
      BorderImage_GetBatches pa texSize self batches vs vertexData currentScissor offset = None)"
proof (intro conjI impI)
  assume "1 \<le> texWidth \<and> 1 \<le> texHeight"
  then obtain r where "tile_rows pa x y width height tox toy texWidth texHeight st 0 = Some r"
    using tile_rows_returns by blast
  then show "\<exists>r. AddQuad_tiled pa st x y width height tox toy texWidth texHeight tiled = Some r"
    by (simp add: AddQuad_tiled_def split: option.splits)
next
  assume a: "element' (fst st) = Some e \<and> (hasColorGradient e \<or> derivedColorUInt e AND 0xff000000 \<noteq> 0)
        \<and> vertexData' (fst st) \<noteq> None \<and> texHeight = 0 \<and> 0 < height"
  then have "tile_rows pa x y width height tox toy texWidth texHeight st 0 = None"
    by (intro tile_rows_stuck_height) (simp_all add: live_batch_def)
  with a show "AddQuad_tiled pa st x y width height tox toy texWidth texHeight True = None"
    by (simp add: AddQuad_tiled_def)
next
  assume a: "element' (fst st) = Some e \<and> (hasColorGradient e \<or> derivedColorUInt e AND 0xff000000 \<noteq> 0)
        \<and> vertexData' (fst st) \<noteq> None \<and> texWidth = 0 \<and> 0 < width \<and> 0 < height"
  then have "tile_rows pa x y width height tox toy texWidth texHeight st 0 = None"
    by (intro tile_rows_stuck_width) (simp_all add: live_batch_def)
  with a show "AddQuad_tiled pa st x y width height tox toy texWidth texHeight True = None"
    by (simp add: AddQuad_tiled_def)
next
  assume "(hasColorGradient (bi_element self)
         \<or> derivedColorUInt (bi_element self) AND 0xff000000 \<noteq> 0)
        \<and> bi_tiled self \<and> 0 < rtop (bi_border self)
        \<and> rleft (bi_border self) + rright (bi_border self)
            < fst (elemSize (bi_element self)) - bi_indentWidth self
        \<and> bi_imageBorder self = IntRect_ZERO
        \<and> rright (bi_imageRect self) - rleft (bi_imageRect self)
            \<le> rleft (bi_border self) + rright (bi_border self)"
  then show "BorderImage_GetBatches pa texSize self batches vs vertexData currentScissor offset
             = None"
    by (intro BorderImage_GetBatches_stuck) simp_all
qed

theorem tiled_loop_termination_witness:
  "(\<exists>r. AddQuad_tiled (0, 0, 0) (ex_batch 0 0, ex_vstore) 0 0 5 3 0 0 2 2 True = Some r)
   \<and> AddQuad_tiled (0, 0, 0) (ex_batch 0 0, ex_vstore) 0 0 5 3 0 0 2 0 True = None
   \<and> AddQuad_tiled (0, 0, 0) (ex_batch 0 0, ex_vstore) 0 0 5 3 0 0 0 2 True = None
   \<and> BorderImage_GetBatches (0, 0, 0) ex_texSize ex_border_image [] ex_vstore 0
        \<lparr>rleft = 0, rtop = 0, rright = 800, rbottom = 600\<rparr> (0, 0) = None"
  using tiled_loop_termination
          [of 2 2 "(0, 0, 0)" "(ex_batch 0 0, ex_vstore)" 0 0 5 3 0 0 True ex_element
              ex_border_image ex_texSize "[]" ex_vstore 0
              "\<lparr>rleft = 0, rtop = 0, rright = 800, rbottom = 600\<rparr>" "(0, 0)"]
        tiled_loop_termination
          [of 2 0 "(0, 0, 0)" "(ex_batch 0 0, ex_vstore)" 0 0 5 3 0 0 True ex_element]
        tiled_loop_termination
          [of 0 2 "(0, 0, 0)" "(ex_batch 0 0, ex_vstore)" 0 0 5 3 0 0 True ex_element]
  by (simp add: ex_batch_def ex_element_def ex_border_image_def IntRect_ZERO_def)

section \<open>Properties of the modal element\<close>

text \<open>
  C9: \<open>SetModalElement\<close> returns false and leaves the state as it is (no reparenting, no
  variable written, no change of focus) when the element is null, when its type is not the
  window type, when enabling an element whose parent is the modal root, and when disabling
  an element whose parent is not the modal root.
\<close>

theorem SetModalElement_rejects:
  "SetModalElement ui None enable = Some (False, ui)
   \<and> (typeName (elems ui m) \<noteq> Window_type \<longrightarrow>
        SetModalElement ui (Some m) enable = Some (False, ui))
   \<and> (parent' (elems ui m) = Some (rootModalElement' ui) \<longrightarrow>
        SetModalElement ui (Some m) True = Some (False, ui))
   \<and> (parent' (elems ui m) \<noteq> Some (rootModalElement' ui) \<longrightarrow>
        SetModalElement ui (Some m) False = Some (False, ui))"
  by (simp add: SetModalElement_def Let_def)

text \<open>
  The four rejections on the sample trees: a null element, the box 2, the window 4 already
  under the modal root, and the window 4 under the normal root.
\<close>

theorem SetModalElement_rejects_witness:
  "SetModalElement ex_ui None True = Some (False, ex_ui)
   \<and> SetModalElement ex_ui (Some 2) True = Some (False, ex_ui)
   \<and> SetModalElement ex_ui_modal (Some 4) True = Some (False, ex_ui_modal)
   \<and> SetModalElement ex_ui (Some 4) False = Some (False, ex_ui)"
  using SetModalElement_rejects [of ex_ui True 2]
        SetModalElement_rejects [of ex_ui_modal True 4]
        SetModalElement_rejects [of ex_ui False 4]
  by (simp add: ex_ui_def ex_ui_modal_def ex_elems_def ex_box_def ex_blank_def Window_type_def)

text \<open>
  The window 4 under the normal root is accepted.
\<close>

lemma SetModalElement_accepts_example:
  "map_option fst (SetModalElement ex_ui (Some 4) True) = Some True"
  by (simp add: SetModalElement_def Let_def ex_ui_def ex_elems_def ex_box_def ex_blank_def
        Window_type_def SetVar_def SetParent_def upd_elem_def GetVarPtr_def VAR_ORIGIN_def
        VAR_ORIGINAL_PARENT_def VAR_ORIGINAL_CHILD_INDEX_def)

section \<open>Properties of the hit test\<close>

text \<open>
  The induction rule of the walk, for the calls that return.
\<close>

lemmas GetElementAt_walk_raw =
  GetElementAt_walk.raw_induct [rotated, consumes 1, case_names step]

lemma descendant_below:
  assumes "c \<in> set (children' (elems ui p))" "descendant ui c d"
  shows "descendant ui p d"
  using assms(2,1)
  by (induction rule: descendant.induct) (auto intro: descendant.intros)

lemma sorted_children_nth:
  "i < length (sorted_children ui current)
   \<Longrightarrow> sorted_children ui current ! i \<in> set (children' (elems ui current))"
  by (metis nth_mem set_sort sorted_children_def)

lemma found_below_refl: "found_below ui current result result"
  by (simp add: found_below_def)

lemma found_below_self:
  "c \<in> set (children' (elems ui current)) \<Longrightarrow> found_below ui current (Some c) r
   \<Longrightarrow> found_below ui current result r"
  by (auto simp: found_below_def intro: descendant.child)

lemma found_below_child:
  "c \<in> set (children' (elems ui current)) \<Longrightarrow> found_below ui c result r
   \<Longrightarrow> found_below ui current result r"
  by (auto simp: found_below_def intro: descendant_below)

lemma found_below_trans:
  "found_below ui current result r \<Longrightarrow> found_below ui current r r'
   \<Longrightarrow> found_below ui current result r'"
  by (auto simp: found_below_def)

text \<open>
  A walk that returns leaves in \<open>result\<close> what it was given or an element below
  \<open>current\<close>; so a hit test from a root returns nothing or an element of its subtree.
\<close>

lemma GetElementAt_walk_below:
  assumes "GetElementAt_walk ui position enabledOnly result current i = Some r"
  shows "found_below ui current result r"
  using assms
proof (induction rule: GetElementAt_walk_raw)
  case (step walk ui position enabledOnly result current i r)
  let ?children = "sorted_children ui current"
  show ?case
  proof (cases "i < length ?children")
    case False
    with step(2) show ?thesis by (simp add: Let_def found_below_refl)
  next
    case True
    let ?element = "?children ! i"
    have mem: "?element \<in> set (children' (elems ui current))"
      using True by (rule sorted_children_nth)
    note IH = step(1)
    have sub: "found_below ui current res r'"
      if "Option.bind (walk ui position enabledOnly res ?element 0)
            (\<lambda>r. walk ui position enabledOnly r current (i + 1)) = Some r'" for res r'
    proof -
      from that obtain r1 where r1: "walk ui position enabledOnly res ?element 0 = Some r1"
        and r2: "walk ui position enabledOnly r1 current (i + 1) = Some r'"
        by (auto simp: bind_eq_Some_conv)
      from found_below_child [OF mem IH [OF r1]] IH [OF r2] show ?thesis
        by (rule found_below_trans)
    qed
    from step(2) True show ?thesis
      by (auto simp: Let_def found_below_refl
               split: if_splits option.splits
               intro: sub IH found_below_self [OF mem] found_below_self [OF mem sub]
                      found_below_self [OF mem IH] found_below_self [OF mem found_below_refl])
  qed
qed

lemma GetElementAt_root_below:
  assumes "GetElementAt_root ui rootEl position enabledOnly = Some (Some e)"
  shows "descendant ui rootEl e"
proof -
  from assms obtain p where "GetElementAt_walk ui p enabledOnly None rootEl 0 = Some (Some e)"
    by (auto simp: GetElementAt_root_def Let_def split: if_splits)
  from GetElementAt_walk_below [OF this] show ?thesis
    by (simp add: found_below_def)
qed

lemma ex_ui_modal_descendants:
  assumes "descendant ex_ui_modal p d" "p = 1"
  shows "d = 4"
  using assms
proof (induction rule: descendant.induct)
  case (child c p)
  then show ?case
    by (simp add: ex_ui_modal_def ex_ui_def ex_elems_def ex_box_def ex_blank_def)
next
  case (step p c d)
  then have "c = 4" by simp
  with step.hyps(2) show ?case
    by (simp add: ex_ui_modal_def ex_ui_def ex_elems_def ex_box_def ex_blank_def)
qed

text \<open>
  C3 as stated fails: when the walk below the modal root finds nothing, \<open>GetElementAt\<close>
  goes on with the normal root. With the window 4 modal, the position (50, 25) is outside
  the window and the box 3 under the normal root is returned.
\<close>

theorem GetElementAt_modal_fallback_counterexample:
  "HasModalElement ex_ui_modal
   \<and> GetElementAt ex_ui_modal (50, 25) True = Some (Some 3)
   \<and> \<not> descendant ex_ui_modal (rootModalElement' ex_ui_modal) 3"
proof -
  have "rootModalElement' ex_ui_modal = 1"
    by (simp add: ex_ui_modal_def ex_ui_def)
  moreover have "\<not> descendant ex_ui_modal 1 3"
    using ex_ui_modal_descendants [of 1 3] by auto
  moreover have "HasModalElement ex_ui_modal"
    by (simp add: HasModalElement_def ex_ui_modal_def ex_ui_def ex_elems_def ex_box_def ex_blank_def)
  moreover have "GetElementAt ex_ui_modal (50, 25) True = Some (Some 3)"
    by (simp add: GetElementAt_def GetElementAt_pos_def GetElementAt_root_def HasModalElement_def
        GetElementAt_walk.simps sorted_children_def layout_next_def IsInside_def
        IsInsideCombined_def IntRect_IsInside_def
        ex_ui_modal_def ex_ui_def ex_elems_def ex_box_def ex_blank_def Let_def)
  ultimately show ?thesis by simp
qed

text \<open>
  C3, amended: with a modal element active, an element found by the hit test below the
  modal root is the result of \<open>GetElementAt\<close> and lies in the modal root's subtree,
  whatever is under the normal root; an element outside the modal root's subtree is
  returned only when the hit test below the modal root finds nothing.
\<close>

theorem GetElementAt_modal:
  "HasModalElement ui \<longrightarrow>
     (\<forall>m. GetElementAt_root ui (rootModalElement' ui) position enabledOnly = Some (Some m) \<longrightarrow>
          GetElementAt ui position enabledOnly = Some (Some m)
          \<and> descendant ui (rootModalElement' ui) m)
     \<and> (\<forall>e. GetElementAt ui position enabledOnly = Some (Some e) \<longrightarrow>
          descendant ui (rootModalElement' ui) e
          \<or> GetElementAt_root ui (rootModalElement' ui) position enabledOnly = Some None)"
proof (intro impI conjI allI)
  fix m
  assume "HasModalElement ui"
    and m: "GetElementAt_root ui (rootModalElement' ui) position enabledOnly = Some (Some m)"
  then show "GetElementAt ui position enabledOnly = Some (Some m)"
    by (simp add: GetElementAt_def GetElementAt_pos_def)
  from m show "descendant ui (rootModalElement' ui) m"
    by (rule GetElementAt_root_below)
next
  fix e
  assume modal: "HasModalElement ui"
    and e: "GetElementAt ui position enabledOnly = Some (Some e)"
  show "descendant ui (rootModalElement' ui) e
        \<or> GetElementAt_root ui (rootModalElement' ui) position enabledOnly = Some None"
  proof (cases "GetElementAt_root ui (rootModalElement' ui) position enabledOnly")
    case None
    with modal e show ?thesis by (simp add: GetElementAt_def GetElementAt_pos_def)
  next
    case (Some r0)
    show ?thesis
    proof (cases r0)
      case None
      with Some show ?thesis by simp
    next
      case (Some m)
      with \<open>GetElementAt_root ui (rootModalElement' ui) position enabledOnly = Some r0\<close>
      have m: "GetElementAt_root ui (rootModalElement' ui) position enabledOnly = Some (Some m)"
        by simp
      with modal e have "e = m" by (simp add: GetElementAt_def GetElementAt_pos_def)
      with GetElementAt_root_below [OF m] show ?thesis by simp
    qed
  qed
qed

text \<open>
  On the modal sample tree, at (350, 350) inside the window.
\<close>

theorem GetElementAt_modal_witness:
  "HasModalElement ex_ui_modal
   \<and> GetElementAt ex_ui_modal (350, 350) True = Some (Some 4)
   \<and> descendant ex_ui_modal (rootModalElement' ex_ui_modal) 4"
proof -
  have modal: "HasModalElement ex_ui_modal"
    by (simp add: HasModalElement_def ex_ui_modal_def ex_ui_def ex_elems_def ex_box_def ex_blank_def)
  have hit: "GetElementAt_root ex_ui_modal (rootModalElement' ex_ui_modal) (350, 350) True
             = Some (Some 4)"
    by (simp add: GetElementAt_root_def GetElementAt_walk.simps sorted_children_def
        layout_next_def IsInside_def IsInsideCombined_def IntRect_IsInside_def
        ex_ui_modal_def ex_ui_def ex_elems_def ex_box_def ex_blank_def Let_def)
  from GetElementAt_modal [of ex_ui_modal "(350, 350)" True] modal hit
  show ?thesis by blast
qed

section \<open>The walks return on a tree of finite depth\<close>

text \<open>
  The loop index of the hit test only grows, also where the layout optimisation skips
  elements.
\<close>

lemma layout_next_greater: "layout_next ui current element i = Some j \<Longrightarrow> i < j"
  by (simp add: layout_next_def Let_def split: if_splits)

text \<open>
  The hit test returns when the subtree of \<open>current\<close> has finite depth: by induction on
  the depth and, for one element, on the number of children still to visit.
\<close>

lemma GetElementAt_walk_returns:
  "subtree_within ui n current
   \<Longrightarrow> GetElementAt_walk ui position enabledOnly result current i \<noteq> None"
proof (induction n arbitrary: current result i)
  case 0
  then have "sorted_children ui current = []" by (simp add: sorted_children_def)
  then show ?case by (subst GetElementAt_walk.simps) simp
next
  case (Suc n)
  have child: "GetElementAt_walk ui position enabledOnly res (sorted_children ui current ! k) 0
               \<noteq> None"
    if "k < length (sorted_children ui current)" for res k
    using Suc.IH Suc.prems sorted_children_nth [OF that] by simp
  show ?case
  proof (induction "length (sorted_children ui current) - i" arbitrary: i result
      rule: less_induct)
    case less
    show ?case
    proof (cases "i < length (sorted_children ui current)")
      case False
      then show ?thesis by (subst GetElementAt_walk.simps) simp
    next
      case True
      have later: "GetElementAt_walk ui position enabledOnly res current j \<noteq> None"
        if "i < j" for res j
        using less [of j res] that True by simp
      have succ: "GetElementAt_walk ui position enabledOnly res current (Suc i) \<noteq> None" for res
        by (rule later) simp
      have skip: "GetElementAt_walk ui position enabledOnly res current j \<noteq> None"
        if "layout_next ui current (sorted_children ui current ! i) i = Some j" for res j
        by (rule later) (rule layout_next_greater [OF that])
      show ?thesis
        by (subst GetElementAt_walk.simps)
           (simp add: Let_def True bind_eq_None_conv child succ skip del: not_None_eq
              split: option.split)
    qed
  qed
qed

lemma GetElementAt_root_returns:
  assumes "subtree_within ui n rootEl"
  shows "GetElementAt_root ui rootEl position enabledOnly \<noteq> None"
  by (simp add: GetElementAt_root_def Let_def GetElementAt_walk_returns [OF assms]
        del: not_None_eq)

lemma GetElementAt_rtt_returns:
  "\<forall>data\<in>set ds. subtree_within ui n (rttRootElement data)
   \<Longrightarrow> GetElementAt_rtt ui position enabledOnly ds \<noteq> None"
proof (induction ds)
  case Nil
  show ?case by simp
next
  case (Cons data rest)
  then have rest: "GetElementAt_rtt ui position enabledOnly rest \<noteq> None" by simp
  from Cons.prems have "subtree_within ui n (rttRootElement data)" by simp
  then have "GetElementAt_root ui (rttRootElement data) p enabledOnly \<noteq> None" for p
    by (rule GetElementAt_root_returns)
  with rest show ?case by (simp add: Let_def del: not_None_eq split: option.split)
qed

lemma GetElementAt_pos_returns:
  assumes "children_bounded ui n"
  shows "\<exists>hit w. GetElementAt_pos ui position enabledOnly = Some (hit, w)"
proof -
  from assms have b: "subtree_within ui n (rootModalElement' ui)"
    "subtree_within ui n (rootElement' ui)"
    "\<forall>data\<in>set (renderToTexture' ui). subtree_within ui n (rttRootElement data)"
    by (simp_all add: children_bounded_def)
  note GetElementAt_root_returns [OF b(1), of position enabledOnly]
    GetElementAt_root_returns [OF b(2), of position enabledOnly]
    GetElementAt_rtt_returns [OF b(3), of position enabledOnly]
  then have "GetElementAt_pos ui position enabledOnly \<noteq> None"
    by (simp add: GetElementAt_pos_def bind_eq_None_conv del: not_None_eq)
  then show ?thesis by (cases "GetElementAt_pos ui position enabledOnly") auto
qed

text \<open>
  The walks up the parent chain, and with them \<open>SetFocusElement\<close>, return when the chain
  ends.
\<close>

lemma top_level_walk_returns:
  "parents_within ui n w \<Longrightarrow> top_level_walk ui w \<noteq> None"
proof (induction ui n w rule: parents_within.induct)
  case (1 ui n)
  show ?case by (subst top_level_walk.simps) simp
next
  case (2 ui e)
  then show ?case by simp
next
  case (3 ui n e)
  then show ?case by (subst top_level_walk.simps) simp
qed

lemma GetFocusableElement_returns:
  "parents_within ui n w \<Longrightarrow> GetFocusableElement ui w \<noteq> None"
proof (induction ui n w rule: parents_within.induct)
  case (1 ui n)
  show ?case by (subst GetFocusableElement.simps) simp
next
  case (2 ui e)
  then show ?case by simp
next
  case (3 ui n e)
  then show ?case by (subst GetFocusableElement.simps) simp
qed

lemma SetFocusElement_returns:
  assumes "parents_within ui n (Some e)"
  shows "\<exists>ui1. SetFocusElement ui (Some e) byKey = Some ui1"
proof -
  from assms obtain m where "n = Suc m" by (cases n) simp_all
  with assms have "parents_within ui m (parent' (elems ui e))" by simp
  then have "top_level_walk ui (parent' (elems ui e)) \<noteq> None"
    by (rule top_level_walk_returns)
  moreover from assms have "GetFocusableElement ui (Some e) \<noteq> None"
    by (rule GetFocusableElement_returns)
  ultimately have "SetFocusElement ui (Some e) byKey \<noteq> None"
    by (simp add: SetFocusElement_def bind_eq_None_conv del: not_None_eq split: option.split)
  then show ?thesis by (cases "SetFocusElement ui (Some e) byKey") auto
qed

section \<open>Properties of the drag registry\<close>

lemma emit_fields [simp]:
  "elems (emit evs ui) = elems ui" "alive' (emit evs ui) = alive' ui"
  "dragElements' (emit evs ui) = dragElements' ui" "events (emit evs ui) = events ui @ evs"
  by (simp_all add: emit_def)

lemma DragElementErase_fields [simp]:
  "elems (DragElementErase ui entry) = elems ui"
  "alive' (DragElementErase ui entry) = alive' ui"
  "events (DragElementErase ui entry) = events ui"
  "dragElements' (DragElementErase ui entry)
   = filter (\<lambda>kv. fst kv \<noteq> fst entry) (dragElements' ui)"
  by (simp_all add: DragElementErase_def)

subsection \<open>Drag cancel\<close>

lemma ProcessDragCancel_loop_keeps:
  assumes "(e, d) \<in> set (dragElements' ui)"
    and "\<forall>entry\<in>set entries. fst entry = e \<longrightarrow> dragBeginPending (snd entry)"
  shows "(e, d) \<in> set (dragElements' (ProcessDragCancel_loop cursorPos entries ui))"
  using assms
proof (induction entries arbitrary: ui)
  case Nil
  then show ?case by simp
next
  case (Cons entry rest)
  show ?case
  proof (cases "fst entry \<in> alive' ui \<and> enabled' (elems ui (fst entry)) \<and>
                visible' (elems ui (fst entry)) \<and> \<not> dragBeginPending (snd entry)")
    case True
    with Cons.prems(2) have "fst entry \<noteq> e" by auto
    with Cons.prems(1)
    have "(e, d) \<in> set (dragElements' (DragElementErase
            (emit [EvOnDragCancel (fst entry) cursorPos, EvDragCancel (fst entry) cursorPos] ui)
            entry))"
      by simp
    from Cons.IH [OF this] Cons.prems(2) True show ?thesis by (simp add: Let_def)
  next
    case False
    with Cons.IH [OF Cons.prems(1)] Cons.prems(2) show ?thesis by (auto simp: Let_def)
  qed
qed

lemma ProcessDragCancel_loop_events:
  assumes "\<forall>entry\<in>set entries. fst entry = e \<longrightarrow> dragBeginPending (snd entry)"
  shows "\<exists>evs. events (ProcessDragCancel_loop cursorPos entries ui) = events ui @ evs
               \<and> (\<forall>ev\<in>set evs. drag_event_of ev \<noteq> Some e)"
  using assms
proof (induction entries arbitrary: ui)
  case Nil
  then show ?case by simp
next
  case (Cons entry rest)
  show ?case
  proof (cases "fst entry \<in> alive' ui \<and> enabled' (elems ui (fst entry)) \<and>
                visible' (elems ui (fst entry)) \<and> \<not> dragBeginPending (snd entry)")
    case True
    with Cons.prems have ne: "fst entry \<noteq> e" by auto
    let ?ui = "DragElementErase
            (emit [EvOnDragCancel (fst entry) cursorPos, EvDragCancel (fst entry) cursorPos] ui)
            entry"
    from Cons.IH [of ?ui] Cons.prems obtain evs where
      evs: "events (ProcessDragCancel_loop cursorPos rest ?ui) = events ?ui @ evs"
           "\<forall>ev\<in>set evs. drag_event_of ev \<noteq> Some e"
      by auto
    have "events (ProcessDragCancel_loop cursorPos (entry # rest) ui)
          = events ui @ ([EvOnDragCancel (fst entry) cursorPos, EvDragCancel (fst entry) cursorPos]
                         @ evs)"
      using True evs(1) by (simp add: Let_def)
    moreover have "\<forall>ev\<in>set ([EvOnDragCancel (fst entry) cursorPos,
                               EvDragCancel (fst entry) cursorPos] @ evs).
                     drag_event_of ev \<noteq> Some e"
      using ne evs(2) by simp
    ultimately show ?thesis by blast
  next
    case False
    with Cons.IH [of ui] Cons.prems show ?thesis by (auto simp: Let_def)
  qed
qed

text \<open>
  C5 as stated fails in its last part: \<open>ProcessDragCancel\<close> erases only the entries
  whose drag has begun and steps over a pending one, which stays in the registry.
\<close>

theorem ProcessDragCancel_pending_counterexample:
  "dragBeginPending (ex_drag 1 True)
   \<and> dragElements' (ex_ui_drag 1 True) = [(3, ex_drag 1 True)]
   \<and> dragElements' (ProcessDragCancel (ex_ui_drag 1 True) (50, 25)) = [(3, ex_drag 1 True)]"
  by (simp add: ProcessDragCancel_def ex_ui_drag_def ex_ui_def ex_drag_def Let_def)

text \<open>
  C5, amended: if a tracked drag is still pending when a drag cancel is processed, no drag
  begin, drag end or drag cancel is reported for its element, and its entry stays in the
  registry.
\<close>

theorem ProcessDragCancel_pending:
  assumes "(e, d) \<in> set (dragElements' ui)" "distinct (map fst (dragElements' ui))"
    and "dragBeginPending d"
  shows "(e, d) \<in> set (dragElements' (ProcessDragCancel ui cursorPos))
       \<and> (\<exists>evs. events (ProcessDragCancel ui cursorPos) = events ui @ evs
                \<and> (\<forall>ev\<in>set evs. drag_event_of ev \<noteq> Some e))"
proof -
  have pend: "\<forall>entry\<in>set (dragElements' ui). fst entry = e \<longrightarrow> dragBeginPending (snd entry)"
  proof (intro ballI impI)
    fix entry assume "entry \<in> set (dragElements' ui)" "fst entry = e"
    with assms(1,2) have "entry = (e, d)"
      by (metis eq_key_imp_eq_value prod.collapse)
    with assms(3) show "dragBeginPending (snd entry)" by simp
  qed
  show ?thesis
  proof (cases "usingTouchInput' ui")
    case True
    with assms(1) show ?thesis by (simp add: ProcessDragCancel_def)
  next
    case False
    with ProcessDragCancel_loop_keeps [OF assms(1) pend]
         ProcessDragCancel_loop_events [OF pend]
    show ?thesis by (simp add: ProcessDragCancel_def)
  qed
qed

text \<open>
  On the router tracking a pending drag of element 3.
\<close>

theorem ProcessDragCancel_pending_witness:
  "(3, ex_drag 1 True) \<in> set (dragElements' (ProcessDragCancel (ex_ui_drag 1 True) (50, 25)))
   \<and> (\<exists>evs. events (ProcessDragCancel (ex_ui_drag 1 True) (50, 25))
              = events (ex_ui_drag 1 True) @ evs
            \<and> (\<forall>ev\<in>set evs. drag_event_of ev \<noteq> Some 3))"
  using ProcessDragCancel_pending [of 3 "ex_drag 1 True" "ex_ui_drag 1 True" "(50, 25)"]
  by (simp add: ex_ui_drag_def ex_ui_def ex_drag_def)

text \<open>
  A drag that has begun is cancelled and erased.
\<close>

lemma ProcessDragCancel_active_example:
  "dragElements' (ProcessDragCancel (ex_ui_drag 1 False) (50, 25)) = []
   \<and> events (ProcessDragCancel (ex_ui_drag 1 False) (50, 25))
     = [EvOnDragCancel 3 (50, 25), EvDragCancel 3 (50, 25)]"
  by (simp add: ProcessDragCancel_def ex_ui_drag_def ex_ui_def ex_drag_def Let_def
        ex_elems_def ex_box_def ex_blank_def)

subsection \<open>Click end\<close>

lemma emit_emit: "emit evs' (emit evs ui) = emit (evs @ evs') ui"
  by (simp add: emit_def)

lemma emit_Nil: "emit [] ui = ui"
  by (simp add: emit_def)

lemma ProcessClickEnd_entry_cases:
  "ProcessClickEnd_entry element cursorPos button buttons cursorVisible entry ui =
     (if fst entry \<notin> alive' ui \<or> \<not> cursorVisible then DragElementErase ui entry
      else if dragButtons (snd entry) AND button \<noteq> 0
      then DragElementErase
             (emit (click_end_events ui element cursorPos button buttons entry) ui) entry
      else ui)"
  by (cases element)
     (simp_all add: ProcessClickEnd_entry_def click_end_events_def Let_def emit_emit)

lemma click_end_events_drag_end:
  "EvOnDragEnd e p \<in> set (click_end_events ui element cursorPos button buttons entry)
   \<longleftrightarrow> p = cursorPos \<and> e = fst entry \<and> enabled' (elems ui (fst entry)) \<and>
       visible' (elems ui (fst entry)) \<and> \<not> dragBeginPending (snd entry)"
  by (cases element) (auto simp: click_end_events_def)

lemma ProcessClickEnd_entry_fields:
  "elems (ProcessClickEnd_entry element cursorPos button buttons cursorVisible entry ui)
   = elems ui"
  "alive' (ProcessClickEnd_entry element cursorPos button buttons cursorVisible entry ui)
   = alive' ui"
  by (simp_all add: ProcessClickEnd_entry_cases)

lemma ProcessClickEnd_entry_keys:
  "fst ` set (dragElements'
                (ProcessClickEnd_entry element cursorPos button buttons cursorVisible entry ui))
   \<subseteq> fst ` set (dragElements' ui)"
  by (auto simp: ProcessClickEnd_entry_cases)

lemma ProcessClickEnd_loop_keys:
  "fst ` set (dragElements' (ProcessClickEnd_loop element cursorPos button buttons cursorVisible
                               entries ui))
   \<subseteq> fst ` set (dragElements' ui)"
proof (induction entries arbitrary: ui)
  case Nil
  show ?case by simp
next
  case (Cons entry rest)
  have "fst ` set (dragElements' (ProcessClickEnd_loop element cursorPos button buttons
            cursorVisible rest
            (ProcessClickEnd_entry element cursorPos button buttons cursorVisible entry ui)))
        \<subseteq> fst ` set (dragElements' ui)"
    by (rule subset_trans [OF Cons.IH ProcessClickEnd_entry_keys])
  then show ?case by simp
qed

text \<open>
  What the loop erases and what it keeps.
\<close>

lemma ProcessClickEnd_loop_erases:
  assumes "(e, d) \<in> set entries"
    and "\<not> cursorVisible \<or> e \<notin> alive' ui \<or> dragButtons d AND button \<noteq> 0"
  shows "e \<notin> fst ` set (dragElements' (ProcessClickEnd_loop element cursorPos button buttons
                                          cursorVisible entries ui))"
  using assms
proof (induction entries arbitrary: ui)
  case Nil
  then show ?case by simp
next
  case (Cons entry rest)
  let ?ui = "ProcessClickEnd_entry element cursorPos button buttons cursorVisible entry ui"
  show ?case
  proof (cases "entry = (e, d)")
    case True
    with Cons.prems(2) have "e \<notin> fst ` set (dragElements' ?ui)"
      by (auto simp: ProcessClickEnd_entry_cases)
    with ProcessClickEnd_loop_keys [of element cursorPos button buttons cursorVisible rest ?ui]
    have "e \<notin> fst ` set (dragElements' (ProcessClickEnd_loop element cursorPos button buttons
                                            cursorVisible rest ?ui))"
      by blast
    then show ?thesis by simp
  next
    case False
    with Cons.prems(1) have rest: "(e, d) \<in> set rest" by simp
    from Cons.prems(2)
    have "\<not> cursorVisible \<or> e \<notin> alive' ?ui \<or> dragButtons d AND button \<noteq> 0"
      by (simp add: ProcessClickEnd_entry_fields)
    from Cons.IH [OF rest this] show ?thesis by simp
  qed
qed

lemma ProcessClickEnd_loop_keeps:
  assumes "(e, d) \<in> set (dragElements' ui)"
    and "\<forall>entry\<in>set entries. fst entry = e \<longrightarrow> snd entry = d"
    and "cursorVisible" "e \<in> alive' ui" "dragButtons d AND button = 0"
  shows "(e, d) \<in> set (dragElements' (ProcessClickEnd_loop element cursorPos button buttons
                                         cursorVisible entries ui))"
  using assms(1,2,4)
proof (induction entries arbitrary: ui)
  case Nil
  then show ?case by simp
next
  case (Cons entry rest)
  let ?ui = "ProcessClickEnd_entry element cursorPos button buttons cursorVisible entry ui"
  have kept: "(e, d) \<in> set (dragElements' ?ui)"
  proof (cases "fst entry = e")
    case True
    with Cons.prems(2) have "snd entry = d" by simp
    with True Cons.prems(1,3) assms(3,5) show ?thesis
      by (simp add: ProcessClickEnd_entry_cases)
  next
    case False
    with Cons.prems(1) show ?thesis
      by (auto simp: ProcessClickEnd_entry_cases)
  qed
  from Cons.prems(2) have rest: "\<forall>entry\<in>set rest. fst entry = e \<longrightarrow> snd entry = d" by simp
  from Cons.prems(3) have "e \<in> alive' ?ui" by (simp add: ProcessClickEnd_entry_fields)
  from Cons.IH [OF kept rest this] show ?case by simp
qed

text \<open>
  The drag ends the loop reports.
\<close>

lemma ProcessClickEnd_entry_events:
  "\<exists>evs. events (ProcessClickEnd_entry element cursorPos button buttons cursorVisible entry ui)
          = events ui @ evs
        \<and> (\<forall>e p. EvOnDragEnd e p \<in> set evs \<longleftrightarrow>
              p = cursorPos \<and> e = fst entry \<and> drag_end_fires ui button cursorVisible entry)"
proof (cases "cursorVisible \<and> fst entry \<in> alive' ui \<and> dragButtons (snd entry) AND button \<noteq> 0")
  case True
  then have "events (ProcessClickEnd_entry element cursorPos button buttons cursorVisible entry ui)
             = events ui @ click_end_events ui element cursorPos button buttons entry"
    by (simp add: ProcessClickEnd_entry_cases)
  moreover have "\<forall>e p. EvOnDragEnd e p
                   \<in> set (click_end_events ui element cursorPos button buttons entry) \<longleftrightarrow>
              p = cursorPos \<and> e = fst entry \<and> drag_end_fires ui button cursorVisible entry"
    using True by (simp add: click_end_events_drag_end drag_end_fires_def)
  ultimately show ?thesis by blast
next
  case False
  then have "events (ProcessClickEnd_entry element cursorPos button buttons cursorVisible entry ui)
             = events ui @ []"
    by (auto simp: ProcessClickEnd_entry_cases)
  moreover have "\<forall>e p. EvOnDragEnd e p \<in> set [] \<longleftrightarrow>
              p = cursorPos \<and> e = fst entry \<and> drag_end_fires ui button cursorVisible entry"
    using False by (auto simp: drag_end_fires_def)
  ultimately show ?thesis by blast
qed

lemma drag_end_fires_cong:
  "alive' ui' = alive' ui \<Longrightarrow> elems ui' = elems ui
   \<Longrightarrow> drag_end_fires ui' button cursorVisible entry
       = drag_end_fires ui button cursorVisible entry"
  by (simp add: drag_end_fires_def)

lemma ProcessClickEnd_loop_events:
  "\<exists>evs. events (ProcessClickEnd_loop element cursorPos button buttons cursorVisible entries ui)
          = events ui @ evs
        \<and> (\<forall>e p. EvOnDragEnd e p \<in> set evs \<longleftrightarrow>
              p = cursorPos \<and>
              (\<exists>d. (e, d) \<in> set entries \<and> drag_end_fires ui button cursorVisible (e, d)))"
proof (induction entries arbitrary: ui)
  case Nil
  show ?case by simp
next
  case (Cons entry rest)
  let ?ui = "ProcessClickEnd_entry element cursorPos button buttons cursorVisible entry ui"
  obtain pre where pre: "events ?ui = events ui @ pre"
    and pre_end: "\<forall>e p. EvOnDragEnd e p \<in> set pre \<longleftrightarrow>
                    p = cursorPos \<and> e = fst entry \<and> drag_end_fires ui button cursorVisible entry"
    using ProcessClickEnd_entry_events by blast
  have same: "drag_end_fires ?ui button cursorVisible x = drag_end_fires ui button cursorVisible x"
    for x
    by (rule drag_end_fires_cong) (simp_all add: ProcessClickEnd_entry_fields)
  from Cons.IH [of ?ui] obtain evs where
    evs: "events (ProcessClickEnd_loop element cursorPos button buttons cursorVisible rest ?ui)
          = events ?ui @ evs"
    and evs_end: "\<forall>e p. EvOnDragEnd e p \<in> set evs \<longleftrightarrow>
              p = cursorPos \<and>
              (\<exists>d. (e, d) \<in> set rest \<and> drag_end_fires ui button cursorVisible (e, d))"
    unfolding same by blast
  have "events (ProcessClickEnd_loop element cursorPos button buttons cursorVisible
                  (entry # rest) ui)
        = events ui @ (pre @ evs)"
    by (simp add: evs pre)
  moreover have "\<forall>e p. EvOnDragEnd e p \<in> set (pre @ evs) \<longleftrightarrow>
              p = cursorPos \<and>
              (\<exists>d. (e, d) \<in> set (entry # rest) \<and> drag_end_fires ui button cursorVisible (e, d))"
  proof (intro allI)
    fix e p
    have "e = fst entry \<and> drag_end_fires ui button cursorVisible entry
          \<longleftrightarrow> (\<exists>d. entry = (e, d) \<and> drag_end_fires ui button cursorVisible (e, d))"
      by (cases entry) auto
    moreover from pre_end have "EvOnDragEnd e p \<in> set pre \<longleftrightarrow>
              p = cursorPos \<and> e = fst entry \<and> drag_end_fires ui button cursorVisible entry"
      by blast
    ultimately have A: "EvOnDragEnd e p \<in> set pre \<longleftrightarrow>
              p = cursorPos \<and>
              (\<exists>d. entry = (e, d) \<and> drag_end_fires ui button cursorVisible (e, d))"
      by blast
    from evs_end have B: "EvOnDragEnd e p \<in> set evs \<longleftrightarrow>
              p = cursorPos \<and>
              (\<exists>d. (e, d) \<in> set rest \<and> drag_end_fires ui button cursorVisible (e, d))"
      by blast
    have C: "EvOnDragEnd e p \<in> set (pre @ evs)
             \<longleftrightarrow> EvOnDragEnd e p \<in> set pre \<or> EvOnDragEnd e p \<in> set evs"
      by simp
    have D: "(e, d) \<in> set (entry # rest) \<longleftrightarrow> entry = (e, d) \<or> (e, d) \<in> set rest" for d
      by auto
    show "EvOnDragEnd e p \<in> set (pre @ evs) \<longleftrightarrow>
              p = cursorPos \<and>
              (\<exists>d. (e, d) \<in> set (entry # rest) \<and> drag_end_fires ui button cursorVisible (e, d))"
      unfolding A B C D by blast
  qed
  ultimately show ?case by blast
qed

text \<open>
  \<open>ProcessClickEnd\<close> returns on a tree of finite depth.
\<close>

lemma ProcessClickEnd_returns:
  assumes "children_bounded ui n"
  shows "\<exists>element cursorPos.
           ProcessClickEnd ui windowCursorPos button buttons cursorVisible
           = Some (ProcessClickEnd_loop element cursorPos button buttons cursorVisible
                     (dragElements' ui) ui)"
proof (cases cursorVisible)
  case True
  from GetElementAt_pos_returns [OF assms] obtain hit w
    where "GetElementAt_pos ui windowCursorPos True = Some (hit, w)" by blast
  with True have "ProcessClickEnd ui windowCursorPos button buttons cursorVisible
           = Some (ProcessClickEnd_loop (lock ui hit)
                     (case w of Some p \<Rightarrow> p | None \<Rightarrow> windowCursorPos)
                     button buttons cursorVisible (dragElements' ui) ui)"
    by (simp add: ProcessClickEnd_def)
  then show ?thesis by blast
next
  case False
  then have "ProcessClickEnd ui windowCursorPos button buttons cursorVisible
           = Some (ProcessClickEnd_loop None windowCursorPos
                     button buttons cursorVisible (dragElements' ui) ui)"
    by (simp add: ProcessClickEnd_def lock_def)
  then show ?thesis by blast
qed

text \<open>
  C4 as stated fails. \<open>ProcessClickEnd\<close> never removes a button from \<open>dragButtons\<close>:
  it erases the entry as soon as one of its buttons is released. Element 3 is dragged with
  the buttons 1 and 2; button 1 is released, button 2 is still held, and the entry is gone.
  Nor does a drag that has begun always get its drag end: with the cursor hidden the entry
  is erased and nothing at all is reported; for a disabled element the click end is reported
  (to the box 2 under the cursor) and no drag end.
\<close>

theorem ProcessClickEnd_release_counterexample:
  "dragElements' (ex_ui_drag 3 True) = [(3, ex_drag 3 True)]
   \<and> dragButtons (ex_drag 3 True) AND 1 \<noteq> 0
   \<and> dragButtons (ex_drag 3 True) AND NOT 1 \<noteq> 0
   \<and> map_option dragElements' (ProcessClickEnd (ex_ui_drag 3 True) (50, 25) 1 2 True) = Some []
   \<and> dragElements' (ex_ui_drag 1 False) = [(3, ex_drag 1 False)]
   \<and> \<not> dragBeginPending (ex_drag 1 False) \<and> dragButtons (ex_drag 1 False) AND 1 \<noteq> 0
   \<and> map_option (\<lambda>u. (dragElements' u, events u))
         (ProcessClickEnd (ex_ui_drag 1 False) (50, 25) 1 0 False) = Some ([], [])
   \<and> dragElements' ex_ui_drag_disabled = [(3, ex_drag 1 False)]
   \<and> map_option (\<lambda>u. (dragElements' u, events u))
         (ProcessClickEnd ex_ui_drag_disabled (50, 25) 1 0 True)
       = Some ([], [EvOnClickEnd 2 (50, 25) 1 0 3, EvUIMouseClickEnd 3 (Some 2) (50, 25) 1 0])"
proof -
  have "map_option dragElements' (ProcessClickEnd (ex_ui_drag 3 True) (50, 25) 1 2 True)
        = Some []"
    by (simp add: ProcessClickEnd_def ProcessClickEnd_entry_def DragElementErase_def lock_def
        GetElementAt_pos_def GetElementAt_root_def HasModalElement_def
        GetElementAt_walk.simps sorted_children_def layout_next_def IsInside_def
        IsInsideCombined_def IntRect_IsInside_def emit_def
        ex_ui_drag_def ex_drag_def ex_ui_def ex_elems_def ex_box_def ex_blank_def Let_def)
  moreover have "map_option (\<lambda>u. (dragElements' u, events u))
         (ProcessClickEnd (ex_ui_drag 1 False) (50, 25) 1 0 False) = Some ([], [])"
    by (simp add: ProcessClickEnd_def ProcessClickEnd_entry_def DragElementErase_def lock_def
        ex_ui_drag_def ex_drag_def ex_ui_def Let_def)
  moreover have "map_option (\<lambda>u. (dragElements' u, events u))
         (ProcessClickEnd ex_ui_drag_disabled (50, 25) 1 0 True)
       = Some ([], [EvOnClickEnd 2 (50, 25) 1 0 3, EvUIMouseClickEnd 3 (Some 2) (50, 25) 1 0])"
    by (simp add: ProcessClickEnd_def ProcessClickEnd_entry_def DragElementErase_def lock_def
        GetElementAt_pos_def GetElementAt_root_def HasModalElement_def
        GetElementAt_walk.simps sorted_children_def layout_next_def IsInside_def
        IsInsideCombined_def IntRect_IsInside_def emit_def ex_ui_drag_disabled_def
        ex_ui_drag_def ex_drag_def ex_ui_def ex_elems_def ex_box_def ex_blank_def Let_def)
  moreover have "dragElements' (ex_ui_drag 3 True) = [(3, ex_drag 3 True)]"
    "dragButtons (ex_drag 3 True) AND 1 \<noteq> 0" "dragButtons (ex_drag 3 True) AND NOT 1 \<noteq> 0"
    "dragElements' (ex_ui_drag 1 False) = [(3, ex_drag 1 False)]"
    "\<not> dragBeginPending (ex_drag 1 False)" "dragButtons (ex_drag 1 False) AND 1 \<noteq> 0"
    "dragElements' ex_ui_drag_disabled = [(3, ex_drag 1 False)]"
    by (simp_all add: ex_ui_drag_disabled_def ex_ui_drag_def ex_drag_def)
  ultimately show ?thesis by (intro conjI)
qed

text \<open>
  C4, amended: on a tree of finite depth \<open>ProcessClickEnd\<close> returns, and for every
  tracked element the entry stays in the registry, unchanged, if and only if the cursor is
  visible, the element is alive and the released button is none of the drag's buttons. So
  the release of a participating button erases the entry at once, whatever buttons remain,
  and so do a hidden cursor and an expired element, whatever button is released. A drag end
  is reported for the element if and only if the cursor is visible, the element is alive,
  the released button is one of the drag's buttons, the drag had begun (it was not pending)
  and the element is enabled and visible.
\<close>

theorem ProcessClickEnd_release:
  assumes "children_bounded ui n"
    and "(e, d) \<in> set (dragElements' ui)" "distinct (map fst (dragElements' ui))"
  shows "\<exists>ui'. ProcessClickEnd ui windowCursorPos button buttons cursorVisible = Some ui'
         \<and> (e \<in> fst ` set (dragElements' ui') \<longleftrightarrow>
              cursorVisible \<and> e \<in> alive' ui \<and> dragButtons d AND button = 0)
         \<and> ((e, d) \<in> set (dragElements' ui') \<longleftrightarrow>
              cursorVisible \<and> e \<in> alive' ui \<and> dragButtons d AND button = 0)
         \<and> (\<exists>evs. events ui' = events ui @ evs
                \<and> ((\<exists>p. EvOnDragEnd e p \<in> set evs) \<longleftrightarrow>
                     cursorVisible \<and> e \<in> alive' ui \<and> dragButtons d AND button \<noteq> 0 \<and>
                     \<not> dragBeginPending d \<and> enabled' (elems ui e) \<and> visible' (elems ui e)))"
proof -
  from ProcessClickEnd_returns [OF assms(1)] obtain element cursorPos where
    ret: "ProcessClickEnd ui windowCursorPos button buttons cursorVisible
          = Some (ProcessClickEnd_loop element cursorPos button buttons cursorVisible
                    (dragElements' ui) ui)"
    by blast
  let ?ui' = "ProcessClickEnd_loop element cursorPos button buttons cursorVisible
                (dragElements' ui) ui"
  let ?stays = "cursorVisible \<and> e \<in> alive' ui \<and> dragButtons d AND button = 0"
  have only: "d' = d" if "(e, d') \<in> set (dragElements' ui)" for d'
    using that assms(2,3) by (meson eq_key_imp_eq_value)
  have gone: "e \<notin> fst ` set (dragElements' ?ui')" if "\<not> ?stays"
    using assms(2) that by (intro ProcessClickEnd_loop_erases) auto
  have kept: "(e, d) \<in> set (dragElements' ?ui')" if "?stays"
  proof -
    have "\<forall>entry\<in>set (dragElements' ui). fst entry = e \<longrightarrow> snd entry = d"
      using only by auto
    with assms(2) that show ?thesis by (intro ProcessClickEnd_loop_keeps) auto
  qed
  have keys: "e \<in> fst ` set (dragElements' ?ui') \<longleftrightarrow> ?stays"
    using gone kept by force
  have entry: "(e, d) \<in> set (dragElements' ?ui') \<longleftrightarrow> ?stays"
    using gone kept by force
  obtain evs where evs: "events ?ui' = events ui @ evs"
    and ends: "\<forall>e p. EvOnDragEnd e p \<in> set evs \<longleftrightarrow>
              p = cursorPos \<and>
              (\<exists>d. (e, d) \<in> set (dragElements' ui) \<and> drag_end_fires ui button cursorVisible (e, d))"
    using ProcessClickEnd_loop_events by blast
  have "(\<exists>p. EvOnDragEnd e p \<in> set evs) \<longleftrightarrow> drag_end_fires ui button cursorVisible (e, d)"
    using ends only assms(2) by blast
  also have "\<dots> \<longleftrightarrow> cursorVisible \<and> e \<in> alive' ui \<and> dragButtons d AND button \<noteq> 0 \<and>
                     \<not> dragBeginPending d \<and> enabled' (elems ui e) \<and> visible' (elems ui e)"
    by (auto simp: drag_end_fires_def)
  finally have fires: "(\<exists>p. EvOnDragEnd e p \<in> set evs) \<longleftrightarrow>
                     cursorVisible \<and> e \<in> alive' ui \<and> dragButtons d AND button \<noteq> 0 \<and>
                     \<not> dragBeginPending d \<and> enabled' (elems ui e) \<and> visible' (elems ui e)" .
  from evs fires have "\<exists>evs. events ?ui' = events ui @ evs
                \<and> ((\<exists>p. EvOnDragEnd e p \<in> set evs) \<longleftrightarrow>
                     cursorVisible \<and> e \<in> alive' ui \<and> dragButtons d AND button \<noteq> 0 \<and>
                     \<not> dragBeginPending d \<and> enabled' (elems ui e) \<and> visible' (elems ui e))"
    by blast
  with ret keys entry show ?thesis by blast
qed

text \<open>
  The release of button 1 of a begun drag of element 3 with the buttons 1 and 2: the entry
  is erased and the drag end reported.
\<close>

theorem ProcessClickEnd_release_witness:
  "children_bounded (ex_ui_drag 3 False) (Suc 0)
   \<and> (3, ex_drag 3 False) \<in> set (dragElements' (ex_ui_drag 3 False))
   \<and> distinct (map fst (dragElements' (ex_ui_drag 3 False)))
   \<and> (\<exists>ui'. ProcessClickEnd (ex_ui_drag 3 False) (50, 25) 1 2 True = Some ui'
         \<and> 3 \<notin> fst ` set (dragElements' ui')
         \<and> (\<exists>evs. events ui' = events (ex_ui_drag 3 False) @ evs
                \<and> (\<exists>p. EvOnDragEnd 3 p \<in> set evs)))"
proof -
  have bounded: "children_bounded (ex_ui_drag 3 False) (Suc 0)"
    by (simp add: children_bounded_def ex_ui_drag_def ex_ui_def ex_elems_def ex_box_def
          ex_blank_def)
  have tracked: "(3, ex_drag 3 False) \<in> set (dragElements' (ex_ui_drag 3 False))"
    "distinct (map fst (dragElements' (ex_ui_drag 3 False)))"
    by (simp_all add: ex_ui_drag_def)
  have active: "3 \<in> alive' (ex_ui_drag 3 False)" "dragButtons (ex_drag 3 False) AND 1 \<noteq> 0"
    "\<not> dragBeginPending (ex_drag 3 False)" "enabled' (elems (ex_ui_drag 3 False) 3)"
    "visible' (elems (ex_ui_drag 3 False) 3)"
    by (simp_all add: ex_ui_drag_def ex_drag_def ex_ui_def ex_elems_def ex_box_def ex_blank_def)
  from ProcessClickEnd_release [where windowCursorPos = "(50, 25)" and button = 1
         and buttons = 2 and cursorVisible = True, OF bounded tracked]
  have "\<exists>ui'. ProcessClickEnd (ex_ui_drag 3 False) (50, 25) 1 2 True = Some ui'
         \<and> 3 \<notin> fst ` set (dragElements' ui')
         \<and> (\<exists>evs. events ui' = events (ex_ui_drag 3 False) @ evs
                \<and> (\<exists>p. EvOnDragEnd 3 p \<in> set evs))"
    using active by auto
  with bounded tracked show ?thesis by (intro conjI)
qed

section \<open>Properties of the double click\<close>

lemma lock_cong: "alive' ui' = alive' ui \<Longrightarrow> lock ui' w = lock ui w"
  by (simp add: lock_def split: option.split)

lemma same_router_refl: "same_router ui ui"
  by (simp add: same_router_def)

lemma change_focus_same: "same_router ui (change_focus ui original element byKey)"
proof -
  have "events (change_focus ui original element byKey)
        = events ui @ drop (length (events ui)) (events (change_focus ui original element byKey))
        \<and> \<not> list_ex is_double_click
              (drop (length (events ui)) (events (change_focus ui original element byKey)))"
    by (simp add: change_focus_def emit_def Let_def split: option.split)
  then have "\<exists>evs. events (change_focus ui original element byKey) = events ui @ evs
                  \<and> \<not> list_ex is_double_click evs"
    by blast
  then show ?thesis
    by (simp add: same_router_def change_focus_def emit_def Let_def split: option.split)
qed

lemma SetFocusElement_same:
  assumes "SetFocusElement ui element byKey = Some ui1"
  shows "same_router ui ui1"
proof (cases element)
  case None
  with assms show ?thesis by (auto simp: SetFocusElement_def change_focus_same)
next
  case (Some e)
  with assms have "ui1 = ui \<or> (\<exists>f. ui1 = change_focus ui (Some e) (Some f) byKey)"
    by (auto simp: SetFocusElement_def bind_eq_Some_conv split: if_splits option.splits)
  then show ?thesis by (auto simp: same_router_refl change_focus_same)
qed

lemma click_double_events:
  "events (click_double ui e now windowCursorPos cursorPos button buttons)
   = events ui @ (if lock ui (doubleClickElement' ui) = Some e \<and>
                     double_click_window ui now windowCursorPos buttons
                  then [EvOnDoubleClick e cursorPos button buttons,
                        EvUIMouseDoubleClick (Some e) (doubleClickFirstPos' ui) cursorPos
                          button buttons]
                  else [])"
  by (simp add: click_double_def emit_def)

lemma click_double_fields:
  "clickTimer' (click_double ui e now windowCursorPos cursorPos button buttons) = now"
  "doubleClickElement' (click_double ui e now windowCursorPos cursorPos button buttons)
   = (if lock ui (doubleClickElement' ui) = Some e \<and>
         double_click_window ui now windowCursorPos buttons then None else Some e)"
  "\<not> (lock ui (doubleClickElement' ui) = Some e \<and>
      double_click_window ui now windowCursorPos buttons)
   \<Longrightarrow> doubleClickFirstPos' (click_double ui e now windowCursorPos cursorPos button buttons)
       = windowCursorPos"
  by (auto simp: click_double_def emit_def)

lemma click_drag_start_fields:
  "events (click_drag_start ui e now cursorPos button newButton) = events ui"
  "clickTimer' (click_drag_start ui e now cursorPos button newButton) = clickTimer' ui"
  "doubleClickElement' (click_drag_start ui e now cursorPos button newButton)
   = doubleClickElement' ui"
  "doubleClickFirstPos' (click_drag_start ui e now cursorPos button newButton)
   = doubleClickFirstPos' ui"
  by (simp_all add: click_drag_start_def Let_def)

text \<open>
  \<open>ProcessClickBegin\<close> with the cursor visible over a live element.
\<close>

lemma ProcessClickBegin_hit:
  assumes "GetElementAt_pos ui windowCursorPos True = Some (Some e, w)" "e \<in> alive' ui"
  shows "ProcessClickBegin ui now windowCursorPos button buttons0 True =
     Option.bind (SetFocusElement ui (Some e) False)
       (\<lambda>ui1. map_option (\<lambda>u. u\<lparr>lastMouseButtons' := buttons0 OR button\<rparr>)
          (case lock ui1 (Some e) of
             Some e \<Rightarrow>
               Some (click_drag_start
                       (click_double
                          (emit [EvBringToFront e,
                                 EvOnClickBegin e (case w of Some p \<Rightarrow> p | None \<Rightarrow> (0, 0))
                                   button (buttons0 OR button),
                                 EvUIMouseClick (Some e)
                                   (case w of Some p \<Rightarrow> p | None \<Rightarrow> (0, 0))
                                   button (buttons0 OR button)] ui1)
                          e now windowCursorPos (case w of Some p \<Rightarrow> p | None \<Rightarrow> (0, 0))
                          button (buttons0 OR button))
                       e now (case w of Some p \<Rightarrow> p | None \<Rightarrow> (0, 0)) button
                       (if usingTouchInput' ui then buttons0 AND button = 0 else True))
           | None \<Rightarrow>
               click_nothing ui1 now windowCursorPos
                 (case w of Some p \<Rightarrow> p | None \<Rightarrow> (0, 0)) button (buttons0 OR button)))"
proof -
  have locked: "lock ui (Some e) = Some e" using assms(2) by (simp add: lock_def)
  show ?thesis
    unfolding ProcessClickBegin_def assms(1)
    by (simp only: not_True_eq_False if_False Option.bind.simps Let_def fst_conv snd_conv
          locked option.case)
qed

text \<open>
  The two branches: a click over a live element whose focus change returns, and a click
  over no element.
\<close>

lemma ProcessClickBegin_element:
  assumes "GetElementAt_pos ui windowCursorPos True = Some (Some e, w)" "e \<in> alive' ui"
    and focus: "SetFocusElement ui (Some e) False = Some ui1"
  shows "\<exists>ui' evs. ProcessClickBegin ui now windowCursorPos button buttons0 True = Some ui'
           \<and> events ui' = events ui @ evs
           \<and> (list_ex is_double_click evs \<longleftrightarrow>
                lock ui (doubleClickElement' ui) = Some e \<and>
                double_click_window ui now windowCursorPos (buttons0 OR button))
           \<and> clickTimer' ui' = now \<and> lastMouseButtons' ui' = buttons0 OR button
           \<and> doubleClickElement' ui' = (if list_ex is_double_click evs then None else Some e)
           \<and> doubleClickFirstPos' ui'
             = (if list_ex is_double_click evs then doubleClickFirstPos' ui else windowCursorPos)"
proof -
  let ?buttons = "buttons0 OR button"
  let ?cursorPos = "case w of Some p \<Rightarrow> p | None \<Rightarrow> (0, 0)"
  let ?newButton = "if usingTouchInput' ui then buttons0 AND button = 0 else True"
  have locked: "lock ui (Some e) = Some e" using assms(2) by (simp add: lock_def)
  note hit = ProcessClickBegin_hit [OF assms(1,2), of now button buttons0]
  from SetFocusElement_same [OF focus] have same: "same_router ui ui1" .
  then obtain pre where pre: "events ui1 = events ui @ pre" "\<not> list_ex is_double_click pre"
    unfolding same_router_def by blast
  have alive1: "alive' ui1 = alive' ui" using same by (simp add: same_router_def)
  have locked1: "lock ui1 (Some e) = Some e"
    unfolding lock_cong [OF alive1] by (rule locked)
  define promoted where "promoted \<longleftrightarrow>
     lock ui (doubleClickElement' ui) = Some e \<and>
     double_click_window ui now windowCursorPos ?buttons"
  define ui2 where "ui2 = emit [EvBringToFront e, EvOnClickBegin e ?cursorPos button ?buttons,
                                EvUIMouseClick (Some e) ?cursorPos button ?buttons] ui1"
  have f2: "alive' ui2 = alive' ui" "doubleClickElement' ui2 = doubleClickElement' ui"
    "clickTimer' ui2 = clickTimer' ui" "doubleClickIntervalMs ui2 = doubleClickIntervalMs ui"
    "lastMouseButtons' ui2 = lastMouseButtons' ui"
    "doubleClickFirstPos' ui2 = doubleClickFirstPos' ui"
    "maxDoubleClickDist' ui2 = maxDoubleClickDist' ui"
    using same by (simp_all add: ui2_def emit_def same_router_def)
  have cond: "lock ui2 (doubleClickElement' ui2) = Some e \<and>
              double_click_window ui2 now windowCursorPos ?buttons \<longleftrightarrow> promoted"
    unfolding lock_cong [OF f2(1)] double_click_window_def f2 promoted_def by blast
  define ui3 where "ui3 = click_double ui2 e now windowCursorPos ?cursorPos button ?buttons"
  define ui4 where "ui4 = click_drag_start ui3 e now ?cursorPos button ?newButton"
  define ui' where "ui' = ui4\<lparr>lastMouseButtons' := ?buttons\<rparr>"
  have ret: "ProcessClickBegin ui now windowCursorPos button buttons0 True = Some ui'"
    unfolding hit ui'_def ui4_def ui3_def ui2_def
    by (simp only: focus Option.bind.simps locked1 option.case option.map)
  define dbl where "dbl = (if promoted
              then [EvOnDoubleClick e ?cursorPos button ?buttons,
                    EvUIMouseDoubleClick (Some e) (doubleClickFirstPos' ui2) ?cursorPos
                      button ?buttons]
              else [])"
  define evs where "evs = pre @ [EvBringToFront e, EvOnClickBegin e ?cursorPos button ?buttons,
                     EvUIMouseClick (Some e) ?cursorPos button ?buttons] @ dbl"
  have "events ui3 = events ui2 @ dbl"
    unfolding ui3_def click_double_events cond dbl_def ..
  then have ev: "events ui' = events ui @ evs"
    by (simp add: ui'_def ui4_def click_drag_start_fields ui2_def pre evs_def)
  have fires: "list_ex is_double_click evs \<longleftrightarrow> promoted"
    using pre(2) by (cases promoted) (simp_all add: evs_def dbl_def)
  have timer: "clickTimer' ui' = now"
    by (simp add: ui'_def ui4_def ui3_def click_drag_start_fields click_double_fields)
  have last: "lastMouseButtons' ui' = ?buttons"
    by (simp add: ui'_def)
  have elt: "doubleClickElement' ui' = (if promoted then None else Some e)"
    unfolding cond [symmetric]
    by (simp add: ui'_def ui4_def ui3_def click_drag_start_fields click_double_fields)
  have first: "doubleClickFirstPos' ui' = (if promoted then doubleClickFirstPos' ui else windowCursorPos)"
  proof (cases promoted)
    case True
    then have "lock ui2 (doubleClickElement' ui2) = Some e \<and>
               double_click_window ui2 now windowCursorPos ?buttons"
      using cond by simp
    then have "doubleClickFirstPos' ui3 = doubleClickFirstPos' ui2"
      by (simp add: ui3_def click_double_def emit_def)
    with True show ?thesis
      by (simp add: ui'_def ui4_def click_drag_start_fields f2)
  next
    case False
    then have "\<not> (lock ui2 (doubleClickElement' ui2) = Some e \<and>
               double_click_window ui2 now windowCursorPos ?buttons)"
      using cond by simp
    then have "doubleClickFirstPos' ui3 = windowCursorPos"
      unfolding ui3_def by (rule click_double_fields(3))
    with False show ?thesis
      by (simp add: ui'_def ui4_def click_drag_start_fields)
  qed
  have "ProcessClickBegin ui now windowCursorPos button buttons0 True = Some ui'
           \<and> events ui' = events ui @ evs
           \<and> (list_ex is_double_click evs \<longleftrightarrow> promoted)
           \<and> clickTimer' ui' = now \<and> lastMouseButtons' ui' = ?buttons
           \<and> doubleClickElement' ui' = (if list_ex is_double_click evs then None else Some e)
           \<and> doubleClickFirstPos' ui'
             = (if list_ex is_double_click evs then doubleClickFirstPos' ui else windowCursorPos)"
    unfolding fires by (intro conjI ret ev refl timer last elt first)
  then show ?thesis unfolding promoted_def by blast
qed

lemma ProcessClickBegin_nothing:
  assumes "GetElementAt_pos ui windowCursorPos True = Some (hit, w)" "lock ui hit = None"
  shows "\<exists>ui' evs. ProcessClickBegin ui now windowCursorPos button buttons0 True = Some ui'
           \<and> events ui' = events ui @ evs
           \<and> (list_ex is_double_click evs \<longleftrightarrow>
                double_click_window ui now windowCursorPos (buttons0 OR button))
           \<and> clickTimer' ui' = now \<and> lastMouseButtons' ui' = buttons0 OR button
           \<and> doubleClickElement' ui' = doubleClickElement' ui
           \<and> doubleClickFirstPos' ui' = doubleClickFirstPos' ui"
proof -
  let ?buttons = "buttons0 OR button"
  let ?cursorPos = "case w of Some p \<Rightarrow> p | None \<Rightarrow> (0, 0)"
  define ui1 where "ui1 = (if \<not> HasModalElement ui then change_focus ui None None False else ui)"
  have same: "same_router ui ui1"
    by (simp add: ui1_def change_focus_same same_router_refl)
  then obtain pre where pre: "events ui1 = events ui @ pre" "\<not> list_ex is_double_click pre"
    unfolding same_router_def by blast
  define ui2 where "ui2 = emit [EvUIMouseClick None ?cursorPos button ?buttons] ui1"
  have f2: "doubleClickElement' ui2 = doubleClickElement' ui"
    "clickTimer' ui2 = clickTimer' ui" "doubleClickIntervalMs ui2 = doubleClickIntervalMs ui"
    "lastMouseButtons' ui2 = lastMouseButtons' ui"
    "doubleClickFirstPos' ui2 = doubleClickFirstPos' ui"
    "maxDoubleClickDist' ui2 = maxDoubleClickDist' ui"
    using same by (simp_all add: ui2_def emit_def same_router_def)
  define window where "window = double_click_window ui now windowCursorPos ?buttons"
  have cond: "double_click_window ui2 now windowCursorPos ?buttons \<longleftrightarrow> window"
    unfolding double_click_window_def f2 window_def ..
  define dbl where "dbl = (if window
      then [EvUIMouseDoubleClick None (doubleClickFirstPos' ui2) ?cursorPos button ?buttons]
      else [])"
  define ui' where "ui' = (emit dbl ui2)\<lparr>clickTimer' := now, lastMouseButtons' := ?buttons\<rparr>"
  have focus: "(if \<not> HasModalElement ui then SetFocusElement ui None False else Some ui)
               = Some ui1"
    by (simp add: ui1_def SetFocusElement_def)
  have branch: "click_nothing ui now windowCursorPos ?cursorPos button ?buttons
                 = Some ((emit dbl ui2)\<lparr>clickTimer' := now\<rparr>)"
    unfolding click_nothing_def focus
    by (simp add: Let_def ui2_def [symmetric] cond dbl_def emit_Nil)
  have ret: "ProcessClickBegin ui now windowCursorPos button buttons0 True = Some ui'"
  proof -
    have lockN: "lock u None = None" for u by (simp add: lock_def)
    have "ProcessClickBegin ui now windowCursorPos button buttons0 True
          = map_option (\<lambda>u. u\<lparr>lastMouseButtons' := ?buttons\<rparr>)
              (click_nothing ui now windowCursorPos ?cursorPos button ?buttons)"
      unfolding ProcessClickBegin_def assms(1)
      by (simp add: Let_def assms(2) lockN)
    also have "\<dots> = Some ui'"
      by (simp add: branch ui'_def)
    finally show ?thesis .
  qed
  define evs where "evs = pre @ [EvUIMouseClick None ?cursorPos button ?buttons] @ dbl"
  have ev: "events ui' = events ui @ evs"
    by (simp add: ui'_def ui2_def pre evs_def)
  have fires: "list_ex is_double_click evs \<longleftrightarrow> window"
    using pre(2) by (cases window) (simp_all add: evs_def dbl_def)
  have rest: "clickTimer' ui' = now" "lastMouseButtons' ui' = ?buttons"
    "doubleClickElement' ui' = doubleClickElement' ui"
    "doubleClickFirstPos' ui' = doubleClickFirstPos' ui"
    using f2 by (simp_all add: ui'_def emit_def)
  have "ProcessClickBegin ui now windowCursorPos button buttons0 True = Some ui'
           \<and> events ui' = events ui @ evs
           \<and> (list_ex is_double_click evs \<longleftrightarrow> window)
           \<and> clickTimer' ui' = now \<and> lastMouseButtons' ui' = ?buttons
           \<and> doubleClickElement' ui' = doubleClickElement' ui
           \<and> doubleClickFirstPos' ui' = doubleClickFirstPos' ui"
    by (intro conjI ret ev fires rest)
  then show ?thesis unfolding window_def by blast
qed

text \<open>
  Clicks on the sample tree: a first click on element 3, a second one 100 ms or 500 ms
  later, a third one; a click on the box 2 followed by a click beside it.
\<close>

lemma ex_first_click:
  "ProcessClickBegin ex_ui 0 (50, 25) 1 0 True = Some ex_ui_clicked"
  by (simp add: ProcessClickBegin_def click_double_def click_drag_start_def
        SetFocusElement_def GetFocusableElement.simps lock_def
        double_click_window_def distance_def
        GetElementAt_pos_def GetElementAt_root_def HasModalElement_def
        GetElementAt_walk.simps sorted_children_def layout_next_def IsInside_def
        IsInsideCombined_def IntRect_IsInside_def emit_def
        ex_ui_clicked_def ex_drag_def ex_ui_def ex_elems_def ex_box_def ex_blank_def Let_def)

lemma ex_hit_clicked:
  "GetElementAt_pos ex_ui_clicked (50, 25) True = Some (Some 3, Some (50, 25))"
  by (simp add: GetElementAt_pos_def GetElementAt_root_def HasModalElement_def
        GetElementAt_walk.simps sorted_children_def layout_next_def IsInside_def
        IsInsideCombined_def IntRect_IsInside_def
        ex_ui_clicked_def ex_ui_def ex_elems_def ex_box_def ex_blank_def Let_def)

lemma ex_second_click:
  "ProcessClickBegin ex_ui_clicked 100 (50, 25) 1 0 True = Some ex_ui_double"
  by (simp add: ProcessClickBegin_def click_double_def click_drag_start_def
        SetFocusElement_def GetFocusableElement.simps lock_def
        double_click_window_def distance_def CountSetBits_def
        GetElementAt_pos_def GetElementAt_root_def HasModalElement_def
        GetElementAt_walk.simps sorted_children_def layout_next_def IsInside_def
        IsInsideCombined_def IntRect_IsInside_def emit_def ex_ui_double_def
        ex_ui_clicked_def ex_drag_def ex_ui_def ex_elems_def ex_box_def ex_blank_def Let_def)

lemma ex_late_click:
  "map_option events (ProcessClickBegin ex_ui_clicked 500 (50, 25) 1 0 True)
     = Some (events ex_ui_clicked @
         [EvBringToFront 3, EvOnClickBegin 3 (50, 25) 1 1, EvUIMouseClick (Some 3) (50, 25) 1 1])"
  by (simp add: ProcessClickBegin_def click_double_def click_drag_start_def
        SetFocusElement_def GetFocusableElement.simps lock_def
        double_click_window_def distance_def CountSetBits_def
        GetElementAt_pos_def GetElementAt_root_def HasModalElement_def
        GetElementAt_walk.simps sorted_children_def layout_next_def IsInside_def
        IsInsideCombined_def IntRect_IsInside_def emit_def
        ex_ui_clicked_def ex_drag_def ex_ui_def ex_elems_def ex_box_def ex_blank_def Let_def)

lemma ex_third_click:
  "map_option events (ProcessClickBegin ex_ui_double 200 (50, 25) 1 0 True)
     = Some (events ex_ui_double @
         [EvBringToFront 3, EvOnClickBegin 3 (50, 25) 1 1, EvUIMouseClick (Some 3) (50, 25) 1 1])"
  by (simp add: ProcessClickBegin_def click_double_def click_drag_start_def
        SetFocusElement_def GetFocusableElement.simps lock_def
        double_click_window_def distance_def CountSetBits_def
        GetElementAt_pos_def GetElementAt_root_def HasModalElement_def
        GetElementAt_walk.simps sorted_children_def layout_next_def IsInside_def
        IsInsideCombined_def IntRect_IsInside_def emit_def ex_ui_double_def
        ex_ui_clicked_def ex_drag_def ex_ui_def ex_elems_def ex_box_def ex_blank_def Let_def)

lemma ex_first_click_box:
  "ProcessClickBegin ex_ui 0 (199, 25) 1 0 True = Some ex_ui_clicked_box"
  by (simp add: ProcessClickBegin_def click_double_def click_drag_start_def
        SetFocusElement_def GetFocusableElement.simps lock_def
        double_click_window_def distance_def CountSetBits_def
        GetElementAt_pos_def GetElementAt_root_def HasModalElement_def
        GetElementAt_walk.simps sorted_children_def layout_next_def IsInside_def
        IsInsideCombined_def IntRect_IsInside_def emit_def
        ex_ui_clicked_box_def ex_drag_def ex_ui_def ex_elems_def ex_box_def ex_blank_def Let_def)

lemma ex_click_nothing:
  "GetElementAt ex_ui_clicked_box (200, 25) True = Some None
   \<and> map_option events (ProcessClickBegin ex_ui_clicked_box 100 (200, 25) 1 0 True)
     = Some (events ex_ui_clicked_box @
         [EvFocusChanged None None, EvUIMouseClick None (200, 25) 1 1,
          EvUIMouseDoubleClick None (199, 25) (200, 25) 1 1])"
  by (simp add: ProcessClickBegin_def click_nothing_def change_focus_def
        SetFocusElement_def GetFocusableElement.simps lock_def
        double_click_window_def distance_def GetElementAt_def
        GetElementAt_pos_def GetElementAt_root_def HasModalElement_def
        GetElementAt_walk.simps sorted_children_def layout_next_def IsInside_def
        IsInsideCombined_def IntRect_IsInside_def emit_def
        ex_ui_clicked_box_def ex_drag_def ex_ui_def ex_elems_def ex_box_def ex_blank_def Let_def)

text \<open>
  C6 as stated fails, in three ways. The bounds are strict: a second click on the same
  element at the same position with the same buttons, exactly the double-click interval
  (500 ms) after the first, reports a click and no double click. A click over no element
  is not compared with any element: 100 ms after a click on the box 2 at (199, 25), a click
  at (200, 25), over no element, reports a double click. And a promoted click clears the
  recorded element: the third of three clicks 100 ms apart on element 3 targets the element
  of the click before it, within all bounds, and is not promoted.
\<close>

theorem ProcessClickBegin_double_click_counterexample:
  "ProcessClickBegin ex_ui 0 (50, 25) 1 0 True = Some ex_ui_clicked
   \<and> 500 - 0 \<le> doubleClickIntervalMs ex_ui_clicked
   \<and> distance (50, 25) (50, 25) \<le> maxDoubleClickDist' ex_ui_clicked
   \<and> map_option events (ProcessClickBegin ex_ui_clicked 500 (50, 25) 1 0 True)
     = Some (events ex_ui_clicked @
         [EvBringToFront 3, EvOnClickBegin 3 (50, 25) 1 1, EvUIMouseClick (Some 3) (50, 25) 1 1])
   \<and> ProcessClickBegin ex_ui 0 (199, 25) 1 0 True = Some ex_ui_clicked_box
   \<and> GetElementAt ex_ui_clicked_box (200, 25) True = Some None
   \<and> map_option events (ProcessClickBegin ex_ui_clicked_box 100 (200, 25) 1 0 True)
     = Some (events ex_ui_clicked_box @
         [EvFocusChanged None None, EvUIMouseClick None (200, 25) 1 1,
          EvUIMouseDoubleClick None (199, 25) (200, 25) 1 1])
   \<and> ProcessClickBegin ex_ui_clicked 100 (50, 25) 1 0 True = Some ex_ui_double
   \<and> map_option events (ProcessClickBegin ex_ui_double 200 (50, 25) 1 0 True)
     = Some (events ex_ui_double @
         [EvBringToFront 3, EvOnClickBegin 3 (50, 25) 1 1, EvUIMouseClick (Some 3) (50, 25) 1 1])"
proof -
  have "500 - 0 \<le> doubleClickIntervalMs ex_ui_clicked"
    "distance (50, 25) (50, 25) \<le> maxDoubleClickDist' ex_ui_clicked"
    by (simp_all add: ex_ui_clicked_def ex_ui_def distance_def)
  with ex_first_click ex_late_click ex_first_click_box ex_click_nothing ex_second_click
    ex_third_click
  show ?thesis by (intro conjI) simp_all
qed

text \<open>
  C6, amended: on a tree of finite depth a click begin with the cursor visible returns,
  and it reports a double click if and only if the time since the click timer was reset (by
  the previous click begin) is less than the double-click interval, the distance from the
  recorded first click position is less than the maximum double-click distance, the held
  buttons equal those of the previous click begin, and, when the click is over a live
  element, that element is the recorded double-click element; a click over no element
  needs no element to match. Every click begin resets the timer and records the buttons. A
  click over an element clears the recorded element when it is promoted and records its own
  element and position when it is not; a click over no element leaves both as they are.
\<close>

theorem ProcessClickBegin_double_click:
  assumes "children_bounded ui n" "parents_bounded ui m"
  shows "\<exists>hit w ui' evs.
           GetElementAt_pos ui windowCursorPos True = Some (hit, w)
         \<and> ProcessClickBegin ui now windowCursorPos button buttons0 True = Some ui'
         \<and> events ui' = events ui @ evs
         \<and> (list_ex is_double_click evs \<longleftrightarrow>
              (lock ui hit = None \<or> lock ui (doubleClickElement' ui) = lock ui hit) \<and>
              now - clickTimer' ui < doubleClickIntervalMs ui \<and>
              distance windowCursorPos (doubleClickFirstPos' ui) < maxDoubleClickDist' ui \<and>
              lastMouseButtons' ui = buttons0 OR button)
         \<and> clickTimer' ui' = now \<and> lastMouseButtons' ui' = buttons0 OR button
         \<and> doubleClickElement' ui'
           = (case lock ui hit of
                None \<Rightarrow> doubleClickElement' ui
              | Some e \<Rightarrow> if list_ex is_double_click evs then None else Some e)
         \<and> doubleClickFirstPos' ui'
           = (if lock ui hit = None \<or> list_ex is_double_click evs
              then doubleClickFirstPos' ui else windowCursorPos)"
proof -
  from GetElementAt_pos_returns [OF assms(1)] obtain hit w
    where hit: "GetElementAt_pos ui windowCursorPos True = Some (hit, w)" by blast
  show ?thesis
  proof (cases "lock ui hit")
    case None
    from ProcessClickBegin_nothing [OF hit None, of now button buttons0]
    obtain ui' evs where
      "ProcessClickBegin ui now windowCursorPos button buttons0 True = Some ui'"
      "events ui' = events ui @ evs"
      "list_ex is_double_click evs \<longleftrightarrow>
         double_click_window ui now windowCursorPos (buttons0 OR button)"
      "clickTimer' ui' = now" "lastMouseButtons' ui' = buttons0 OR button"
      "doubleClickElement' ui' = doubleClickElement' ui"
      "doubleClickFirstPos' ui' = doubleClickFirstPos' ui"
      by blast
    with hit None have
      "GetElementAt_pos ui windowCursorPos True = Some (hit, w)
         \<and> ProcessClickBegin ui now windowCursorPos button buttons0 True = Some ui'
         \<and> events ui' = events ui @ evs
         \<and> (list_ex is_double_click evs \<longleftrightarrow>
              (lock ui hit = None \<or> lock ui (doubleClickElement' ui) = lock ui hit) \<and>
              now - clickTimer' ui < doubleClickIntervalMs ui \<and>
              distance windowCursorPos (doubleClickFirstPos' ui) < maxDoubleClickDist' ui \<and>
              lastMouseButtons' ui = buttons0 OR button)
         \<and> clickTimer' ui' = now \<and> lastMouseButtons' ui' = buttons0 OR button
         \<and> doubleClickElement' ui'
           = (case lock ui hit of
                None \<Rightarrow> doubleClickElement' ui
              | Some e \<Rightarrow> if list_ex is_double_click evs then None else Some e)
         \<and> doubleClickFirstPos' ui'
           = (if lock ui hit = None \<or> list_ex is_double_click evs
              then doubleClickFirstPos' ui else windowCursorPos)"
      by (simp add: double_click_window_def conj_ac)
    then show ?thesis by blast
  next
    case (Some e)
    then have e: "hit = Some e" "e \<in> alive' ui"
      by (auto simp: lock_def split: option.splits if_splits)
    from assms(2) e(2) have "parents_within ui m (Some e)"
      by (simp add: parents_bounded_def)
    from SetFocusElement_returns [OF this] obtain ui1
      where focus: "SetFocusElement ui (Some e) False = Some ui1" by blast
    from ProcessClickBegin_element [OF hit [unfolded e(1)] e(2) focus, of now button buttons0]
    obtain ui' evs where
      "ProcessClickBegin ui now windowCursorPos button buttons0 True = Some ui'"
      "events ui' = events ui @ evs"
      "list_ex is_double_click evs \<longleftrightarrow>
         lock ui (doubleClickElement' ui) = Some e \<and>
         double_click_window ui now windowCursorPos (buttons0 OR button)"
      "clickTimer' ui' = now" "lastMouseButtons' ui' = buttons0 OR button"
      "doubleClickElement' ui' = (if list_ex is_double_click evs then None else Some e)"
      "doubleClickFirstPos' ui'
         = (if list_ex is_double_click evs then doubleClickFirstPos' ui else windowCursorPos)"
      by blast
    with hit Some have
      "GetElementAt_pos ui windowCursorPos True = Some (hit, w)
         \<and> ProcessClickBegin ui now windowCursorPos button buttons0 True = Some ui'
         \<and> events ui' = events ui @ evs
         \<and> (list_ex is_double_click evs \<longleftrightarrow>
              (lock ui hit = None \<or> lock ui (doubleClickElement' ui) = lock ui hit) \<and>
              now - clickTimer' ui < doubleClickIntervalMs ui \<and>
              distance windowCursorPos (doubleClickFirstPos' ui) < maxDoubleClickDist' ui \<and>
              lastMouseButtons' ui = buttons0 OR button)
         \<and> clickTimer' ui' = now \<and> lastMouseButtons' ui' = buttons0 OR button
         \<and> doubleClickElement' ui'
           = (case lock ui hit of
                None \<Rightarrow> doubleClickElement' ui
              | Some e \<Rightarrow> if list_ex is_double_click evs then None else Some e)
         \<and> doubleClickFirstPos' ui'
           = (if lock ui hit = None \<or> list_ex is_double_click evs
              then doubleClickFirstPos' ui else windowCursorPos)"
      by (simp add: double_click_window_def conj_ac)
    then show ?thesis by blast
  qed
qed

text \<open>
  The second click on element 3, 100 ms after the first, is a double click.
\<close>

theorem ProcessClickBegin_double_click_witness:
  "children_bounded ex_ui_clicked (Suc 0) \<and> parents_bounded ex_ui_clicked (Suc (Suc 0))
   \<and> (\<exists>ui' evs. ProcessClickBegin ex_ui_clicked 100 (50, 25) 1 0 True = Some ui'
         \<and> events ui' = events ex_ui_clicked @ evs
         \<and> list_ex is_double_click evs
         \<and> doubleClickElement' ui' = None)"
proof -
  have bounded: "children_bounded ex_ui_clicked (Suc 0)"
    "parents_bounded ex_ui_clicked (Suc (Suc 0))"
    by (simp_all add: children_bounded_def parents_bounded_def ex_ui_clicked_def ex_ui_def
          ex_elems_def ex_box_def ex_blank_def)
  have promoted: "lock ex_ui_clicked (Some 3) = Some 3"
    "lock ex_ui_clicked (doubleClickElement' ex_ui_clicked) = Some 3"
    "100 - clickTimer' ex_ui_clicked < doubleClickIntervalMs ex_ui_clicked"
    "distance (50, 25) (doubleClickFirstPos' ex_ui_clicked) < maxDoubleClickDist' ex_ui_clicked"
    "lastMouseButtons' ex_ui_clicked = 0 OR 1"
    by (simp_all add: lock_def distance_def ex_ui_clicked_def ex_ui_def)
  from ProcessClickBegin_double_click [of _ _ _ "(50, 25)" 100 1 0, OF bounded]
  obtain hit w ui' evs where
    hit: "GetElementAt_pos ex_ui_clicked (50, 25) True = Some (hit, w)"
    and ret: "ProcessClickBegin ex_ui_clicked 100 (50, 25) 1 0 True = Some ui'"
      "events ui' = events ex_ui_clicked @ evs"
    and fires: "list_ex is_double_click evs \<longleftrightarrow>
              (lock ex_ui_clicked hit = None
               \<or> lock ex_ui_clicked (doubleClickElement' ex_ui_clicked) = lock ex_ui_clicked hit) \<and>
              100 - clickTimer' ex_ui_clicked < doubleClickIntervalMs ex_ui_clicked \<and>
              distance (50, 25) (doubleClickFirstPos' ex_ui_clicked)
                < maxDoubleClickDist' ex_ui_clicked \<and>
              lastMouseButtons' ex_ui_clicked = 0 OR 1"
    and elt: "doubleClickElement' ui'
           = (case lock ex_ui_clicked hit of
                None \<Rightarrow> doubleClickElement' ex_ui_clicked
              | Some e \<Rightarrow> if list_ex is_double_click evs then None else Some e)"
    by blast
  from hit ex_hit_clicked have "hit = Some 3" by simp
  with fires elt promoted have "list_ex is_double_click evs" "doubleClickElement' ui' = None"
    by simp_all
  with ret have "\<exists>ui' evs. ProcessClickBegin ex_ui_clicked 100 (50, 25) 1 0 True = Some ui'
         \<and> events ui' = events ex_ui_clicked @ evs
         \<and> list_ex is_double_click evs
         \<and> doubleClickElement' ui' = None"
    by blast
  with bounded show ?thesis by (intro conjI)
qed

end
